theory Spec2Isabelle
  imports Main "HOL-Library.Word" "HOL-Library.AList"
begin

unbundle bit_operations_syntax

section \<open>JavaScript strings\<close>

text \<open>
  A JavaScript string is a sequence of 16-bit code units. The regular expressions of
  the build script carry no \<open>u\<close> flag, so they work on code units as well.
  \<open>lit\<close> turns an ASCII literal of the source into such a string.
\<close>

type_synonym jschar = "16 word"
type_synonym jsstring = "jschar list"

definition lit :: "string \<Rightarrow> jsstring" where
  "lit s = map (\<lambda>c. of_nat (of_char c)) s"

text \<open>
  The line terminators of ECMAScript: LF, CR, U+2028 and U+2029. The dot of a regular
  expression (without the \<open>s\<close> flag) matches every code unit but these, and \<open>$\<close> under
  the \<open>m\<close> flag matches at the end of the input and in front of one of these.
\<close>

definition is_line_terminator :: "jschar \<Rightarrow> bool" where
  "is_line_terminator c = (c = 0x000A \<or> c = 0x000D \<or> c = 0x2028 \<or> c = 0x2029)"

text \<open>
  The class \<open>\s\<close> of a regular expression, which is also what \<open>String.prototype.trim\<close>
  strips: the white space of ECMAScript (TAB, VT, FF, U+FEFF and the Unicode category
  Zs) and the line terminators.
\<close>

definition is_space :: "jschar \<Rightarrow> bool" where
  "is_space c =
     (c = 0x0009 \<or> c = 0x000B \<or> c = 0x000C \<or> c = 0xFEFF \<or>
      c = 0x0020 \<or> c = 0x00A0 \<or> c = 0x1680 \<or> (0x2000 \<le> c \<and> c \<le> 0x200A) \<or>
      c = 0x202F \<or> c = 0x205F \<or> c = 0x3000 \<or>
      is_line_terminator c)"

abbreviation SP :: jschar where "SP \<equiv> 0x0020"
abbreviation STAR :: jschar where "STAR \<equiv> 0x002A"
abbreviation SLASH :: jschar where "SLASH \<equiv> 0x002F"
abbreviation SEMI :: jschar where "SEMI \<equiv> 0x003B"
abbreviation LBRACE :: jschar where "LBRACE \<equiv> 0x007B"
abbreviation RBRACE :: jschar where "RBRACE \<equiv> 0x007D"

text \<open>\<open>s.trim()\<close>: the white space at both ends is dropped.\<close>

definition trim :: "jsstring \<Rightarrow> jsstring" where
  "trim s = rev (dropWhile is_space (rev (dropWhile is_space s)))"

section \<open>The minifiers of the build script\<close>

text \<open>
  Every step of \<open>minifyCSS\<close> and \<open>minifyJS\<close> is a \<open>String.prototype.replace\<close> with a
  global regular expression: the input is scanned from the left, at each position the
  expression is tried, a match is replaced and the scan goes on behind it, and a
  position without a match keeps its code unit. None of the expressions can match the
  empty string. Each step below is that scan for one expression of the source.
\<close>

text \<open>
  \<open>after_close r\<close> is the text behind the first \<open>*/\<close> of \<open>r\<close>, if there is one: the lazy
  \<open>[\s\S]*?\*\/\<close> tried at the start of \<open>r\<close>.
\<close>

fun after_close :: "jsstring \<Rightarrow> jsstring option" where
  "after_close (a # b # r) = (if a = STAR \<and> b = SLASH then Some r else after_close (b # r))"
| "after_close _ = None"

text \<open>\<open>.replace(/\/\*[\s\S]*?\*\//g, '')\<close>: block comments are removed.\<close>

function strip_block_comments :: "jsstring \<Rightarrow> jsstring" where
  "strip_block_comments [] = []"
| "strip_block_comments [c] = [c]"
| "strip_block_comments (c # d # r) =
     (if c = SLASH \<and> d = STAR
      then (case after_close r of
              Some r' \<Rightarrow> strip_block_comments r'
            | None \<Rightarrow> c # strip_block_comments (d # r))
      else c # strip_block_comments (d # r))"
  by pat_completeness auto
termination
proof -
  have close: "length r' < length r" if "after_close r = Some r'" for r r'
    using that by (induction r rule: after_close.induct) (auto split: if_splits)
  show ?thesis
    by (relation "measure length") (auto dest: close)
qed

text \<open>
  \<open>.replace(/\/\/.*$/gm, '')\<close>: from \<open>//\<close> to the end of the line. The greedy \<open>.*\<close> stops
  in front of a line terminator or at the end of the input, where \<open>$\<close> holds.
\<close>

function strip_line_comments :: "jsstring \<Rightarrow> jsstring" where
  "strip_line_comments [] = []"
| "strip_line_comments [c] = [c]"
| "strip_line_comments (c # d # r) =
     (if c = SLASH \<and> d = SLASH
      then strip_line_comments (dropWhile (\<lambda>x. \<not> is_line_terminator x) r)
      else c # strip_line_comments (d # r))"
  by pat_completeness auto
termination
  by (relation "measure length") (auto simp: less_Suc_eq_le le_SucI length_dropWhile_le)

text \<open>\<open>.replace(/\s+/g, ' ')\<close>: every maximal run of white space becomes one space.\<close>

function collapse_ws :: "jsstring \<Rightarrow> jsstring" where
  "collapse_ws [] = []"
| "collapse_ws (c # r) =
     (if is_space c then SP # collapse_ws (dropWhile is_space r)
      else c # collapse_ws r)"
  by pat_completeness auto
termination
  by (relation "measure length") (auto simp: less_Suc_eq_le length_dropWhile_le)

text \<open>
  \<open>.replace(/;\s*}/g, '}')\<close>: a semicolon, the white space behind it and a closing brace
  become the brace. The brace is no white space, so the greedy \<open>\s*\<close> has one way to
  match only.
\<close>

function drop_semi_before_brace :: "jsstring \<Rightarrow> jsstring" where
  "drop_semi_before_brace [] = []"
| "drop_semi_before_brace (c # r) =
     (if c = SEMI
      then (case dropWhile is_space r of
              d # r' \<Rightarrow> if d = RBRACE then RBRACE # drop_semi_before_brace r'
                        else c # drop_semi_before_brace r
            | [] \<Rightarrow> c # drop_semi_before_brace r)
      else c # drop_semi_before_brace r)"
  by pat_completeness auto
termination
proof -
  have shorter: "length r' < length r" if "dropWhile is_space r = d # r'" for r d r'
    using that length_dropWhile_le [of is_space r] by simp
  show ?thesis
    by (relation "measure length") (auto dest: shorter)
qed

text \<open>
  \<open>.replace(/\s*{\s*/g, '{')\<close>: an opening brace swallows the white space on both sides.
  At a position inside a run of white space the expression matches if and only if the
  run ends at an opening brace.
\<close>

function clean_braces :: "jsstring \<Rightarrow> jsstring" where
  "clean_braces [] = []"
| "clean_braces (c # r) =
     (case dropWhile is_space (c # r) of
        d # r' \<Rightarrow> if d = LBRACE then LBRACE # clean_braces (dropWhile is_space r')
                  else c # clean_braces r
      | [] \<Rightarrow> c # clean_braces r)"
  by pat_completeness auto
termination
proof (relation "measure length")
  fix c :: jschar and r x21 x22
  assume "dropWhile is_space (c # r) = x21 # x22"
  then have "length x22 < length (c # r)"
    using length_dropWhile_le [of is_space "c # r"] by (simp del: dropWhile.simps)
  moreover have "length (dropWhile is_space x22) \<le> length x22"
    by (rule length_dropWhile_le)
  ultimately show "(dropWhile is_space x22, c # r) \<in> measure length"
    by simp
qed simp_all

text \<open>\<open>.replace(/;\s*/g, ';')\<close>: the white space behind a semicolon is dropped.\<close>

function clean_semis :: "jsstring \<Rightarrow> jsstring" where
  "clean_semis [] = []"
| "clean_semis (c # r) =
     (if c = SEMI then SEMI # clean_semis (dropWhile is_space r)
      else c # clean_semis r)"
  by pat_completeness auto
termination
  by (relation "measure length") (auto simp: less_Suc_eq_le length_dropWhile_le)

definition minifyCSS :: "jsstring \<Rightarrow> jsstring" where
  "minifyCSS css =
     trim (clean_semis (clean_braces (drop_semi_before_brace
       (collapse_ws (strip_block_comments css)))))"

definition minifyJS :: "jsstring \<Rightarrow> jsstring" where
  "minifyJS js =
     trim (drop_semi_before_brace (collapse_ws
       (strip_line_comments (strip_block_comments js))))"

text \<open>
  A string is \<open>ws_normal\<close> when each of its white-space code units is a space that is
  not followed by white space: the strings the white-space collapse leaves alone.
\<close>


fun ws_normal :: "jsstring \<Rightarrow> bool" where
  "ws_normal [] = True"
| "ws_normal (c # r) =
     ((\<not> is_space c \<or> (c = SP \<and> (case r of [] \<Rightarrow> True | d # _ \<Rightarrow> \<not> is_space d))) \<and> ws_normal r)"

definition no_space_head :: "jsstring \<Rightarrow> bool" where
  "no_space_head s = (case s of [] \<Rightarrow> True | d # _ \<Rightarrow> \<not> is_space d)"


section \<open>The deployment script\<close>

text \<open>
  \<open>CONFIG\<close> is an object literal with the three own properties \<open>development\<close>,
  \<open>staging\<close> and \<open>production\<close>. \<open>CONFIG[environment]\<close> is a property read, and a
  property read of JavaScript goes on to the prototype of the object when the object
  has no own property of that name. The prototype of an object literal is
  \<open>Object.prototype\<close>, whose properties are listed in \<open>object_prototype_names\<close>; each
  of them is a function or an object, hence truthy, and none of them has a property
  \<open>branch\<close>, \<open>buildDir\<close> or \<open>deployTarget\<close>. A read of any other name is \<open>undefined\<close>,
  here \<open>None\<close>.
\<close>

record config =
  buildDir :: jsstring
  deployTarget :: jsstring
  branch :: jsstring

datatype config_value = Own config | Inherited

definition object_prototype_names :: "jsstring list" where
  "object_prototype_names =
     [lit ''constructor'', lit ''__defineGetter__'', lit ''__defineSetter__'',
      lit ''hasOwnProperty'', lit ''__lookupGetter__'', lit ''__lookupSetter__'',
      lit ''isPrototypeOf'', lit ''propertyIsEnumerable'', lit ''toString'',
      lit ''valueOf'', lit ''__proto__'', lit ''toLocaleString'']"

definition CONFIG :: "jsstring \<Rightarrow> config_value option" where
  "CONFIG key =
     (if key = lit ''development'' then
        Some (Own \<lparr>buildDir = lit ''./dist'', deployTarget = lit ''dev.catipedia.com'',
                    branch = lit ''develop''\<rparr>)
      else if key = lit ''staging'' then
        Some (Own \<lparr>buildDir = lit ''./dist'', deployTarget = lit ''staging.catipedia.com'',
                    branch = lit ''staging''\<rparr>)
      else if key = lit ''production'' then
        Some (Own \<lparr>buildDir = lit ''./dist'', deployTarget = lit ''catipedia.com'',
                    branch = lit ''main''\<rparr>)
      else if key \<in> set object_prototype_names then Some Inherited
      else None)"

text \<open>\<open>this.config.branch\<close> and \<open>this.config.buildDir\<close>; \<open>None\<close> is \<open>undefined\<close>.\<close>

fun config_branch :: "config_value \<Rightarrow> jsstring option" where
  "config_branch (Own c) = Some (branch c)"
| "config_branch Inherited = None"

fun config_buildDir :: "config_value \<Rightarrow> jsstring option" where
  "config_buildDir (Own c) = Some (buildDir c)"
| "config_buildDir Inherited = None"

record DeploymentManager =
  environment :: jsstring
  config :: config_value

text \<open>The external commands the script hands to \<open>execSync\<close>.\<close>

datatype command =
  GitBranchShowCurrent
  | GitStatusPorcelain
  | NpmCi
  | NpmRunBuild
  | NpmTest
  | WranglerPagesDeploy jsstring

definition command_line :: "command \<Rightarrow> jsstring" where
  "command_line c =
     (case c of
        GitBranchShowCurrent \<Rightarrow> lit ''git branch --show-current''
      | GitStatusPorcelain \<Rightarrow> lit ''git status --porcelain''
      | NpmCi \<Rightarrow> lit ''npm ci''
      | NpmRunBuild \<Rightarrow> lit ''npm run build''
      | NpmTest \<Rightarrow> lit ''npm test''
      | WranglerPagesDeploy project \<Rightarrow>
          lit ''npx wrangler pages deploy ./dist --project-name='' @ project)"

datatype step = PreDeploymentChecks | BuildProject | RunTests | Deploy | PostDeployment

datatype error =
  InvalidEnvironment jsstring
  | PackageJsonNotFound
  | BuildFailed "command option"
  | TestsFailed
  | DeploymentFailed

datatype message =
  Banner
  | Initializing jsstring
  | BranchMismatch jsstring "jsstring option"
  | GitBranchCheckFailed
  | UncommittedChanges
  | Output jsstring
  | GitStatusCheckFailed
  | InstallingDependencies
  | BuildingProject
  | TestsFailedContinuing
  | DeployingWithWrangler
  | DeployingFiles
  | WarmingUp
  | DeploymentCompleted
  | DeploymentAborted error

text \<open>
  What a run does that can be seen from outside, in order: the commands it executes, the
  first and the last line each step prints (\<open>Enter\<close> and \<open>Done\<close>), and the other lines on
  \<open>console.log\<close>, \<open>console.warn\<close> and \<open>console.error\<close>.
\<close>

datatype event =
  Exec command
  | Enter step
  | Done step
  | Log message
  | Warn message
  | Err message

text \<open>
  What the script finds around it: for the two git commands the standard output, or
  \<open>None\<close> when \<open>execSync\<close> throws (a non-zero exit, or git missing); for the other
  commands whether they exit with status 0; for the paths whether \<open>fs.existsSync\<close>
  finds them (\<open>dist_dir\<close> at the time the build has finished).
\<close>

record world =
  git_branch :: "jsstring option"
  git_status :: "jsstring option"
  package_json :: bool
  npm_ci :: bool
  npm_run_build :: bool
  dist_dir :: bool
  npm_test :: bool
  wrangler_toml :: bool
  wrangler_deploy :: bool

text \<open>A step returns what it did and either the error it threw or its result.\<close>

type_synonym 'a io = "event list \<times> (error + 'a)"

definition DeploymentManager_new :: "jsstring \<Rightarrow> DeploymentManager io" where
  "DeploymentManager_new env =
     (case CONFIG env of
        None \<Rightarrow> ([], Inl (InvalidEnvironment env))
      | Some cfg \<Rightarrow> ([Log (Initializing env)], Inr \<lparr>environment = env, config = cfg\<rparr>))"

definition check_branch :: "DeploymentManager \<Rightarrow> world \<Rightarrow> event list" where
  "check_branch dm w =
     Exec GitBranchShowCurrent #
     (case git_branch w of
        None \<Rightarrow> [Err GitBranchCheckFailed]
      | Some out \<Rightarrow>
          (if Some (trim out) \<noteq> config_branch (config dm)
           then [Warn (BranchMismatch (trim out) (config_branch (config dm)))]
           else []))"

definition check_status :: "world \<Rightarrow> event list" where
  "check_status w =
     Exec GitStatusPorcelain #
     (case git_status w of
        None \<Rightarrow> [Err GitStatusCheckFailed]
      | Some status \<Rightarrow>
          (if trim status \<noteq> [] then [Warn UncommittedChanges, Log (Output status)]
           else []))"

definition preDeploymentChecks :: "DeploymentManager \<Rightarrow> world \<Rightarrow> unit io" where
  "preDeploymentChecks dm w =
     (let t = Enter PreDeploymentChecks # check_branch dm w @ check_status w
      in if \<not> package_json w then (t, Inl PackageJsonNotFound)
         else (t @ [Done PreDeploymentChecks], Inr ()))"

definition buildProject :: "DeploymentManager \<Rightarrow> world \<Rightarrow> unit io" where
  "buildProject dm w =
     (let t1 = [Enter BuildProject, Log InstallingDependencies, Exec NpmCi];
          t2 = t1 @ [Log BuildingProject, Exec NpmRunBuild]
      in if \<not> npm_ci w then (t1, Inl (BuildFailed (Some NpmCi)))
         else if \<not> npm_run_build w then (t2, Inl (BuildFailed (Some NpmRunBuild)))
         else if \<not> (case config_buildDir (config dm) of
                       None \<Rightarrow> False
                     | Some d \<Rightarrow> dist_dir w)
         then (t2, Inl (BuildFailed None))
         else (t2 @ [Done BuildProject], Inr ()))"

definition runTests :: "DeploymentManager \<Rightarrow> world \<Rightarrow> unit io" where
  "runTests dm w =
     (if npm_test w then ([Enter RunTests, Exec NpmTest, Done RunTests], Inr ())
      else if environment dm = lit ''production''
      then ([Enter RunTests, Exec NpmTest], Inl TestsFailed)
      else ([Enter RunTests, Exec NpmTest, Warn TestsFailedContinuing], Inr ()))"

definition deployCommand :: "DeploymentManager \<Rightarrow> command" where
  "deployCommand dm =
     (if environment dm = lit ''production'' then WranglerPagesDeploy (lit ''catipedia'')
      else WranglerPagesDeploy (lit ''catipedia-'' @ environment dm))"

definition deploy :: "DeploymentManager \<Rightarrow> world \<Rightarrow> unit io" where
  "deploy dm w =
     (if wrangler_toml w then
        (if wrangler_deploy w
         then ([Enter Deploy, Log DeployingWithWrangler, Exec (deployCommand dm), Done Deploy],
               Inr ())
         else ([Enter Deploy, Log DeployingWithWrangler, Exec (deployCommand dm)],
               Inl DeploymentFailed))
      else ([Enter Deploy, Log DeployingFiles, Done Deploy], Inr ()))"

definition postDeployment :: "DeploymentManager \<Rightarrow> world \<Rightarrow> unit io" where
  "postDeployment dm w = ([Enter PostDeployment, Log WarmingUp, Done PostDeployment], Inr ())"

text \<open>\<open>await a; await b\<close> inside one \<open>try\<close>: \<open>b\<close> runs if \<open>a\<close> has not thrown.\<close>

definition and_then :: "unit io \<Rightarrow> unit io \<Rightarrow> unit io" where
  "and_then a b =
     (case a of
        (t, Inl e) \<Rightarrow> (t, Inl e)
      | (t, Inr _) \<Rightarrow> (case b of (t', r) \<Rightarrow> (t @ t', r)))"

record outcome =
  trace :: "event list"
  exit_code :: nat

text \<open>
  \<open>run\<close>: the five steps in order; the \<open>catch\<close> prints the error and calls
  \<open>process.exit(1)\<close>. A run that gets to its end leaves the process to exit with 0.
\<close>

definition run :: "DeploymentManager \<Rightarrow> world \<Rightarrow> outcome" where
  "run dm w =
     (case and_then (preDeploymentChecks dm w)
             (and_then (buildProject dm w)
               (and_then (runTests dm w)
                 (and_then (deploy dm w) (postDeployment dm w)))) of
        (t, Inr _) \<Rightarrow> \<lparr>trace = t @ [Log DeploymentCompleted], exit_code = 0\<rparr>
      | (t, Inl e) \<Rightarrow> \<lparr>trace = t @ [Err (DeploymentAborted e)], exit_code = 1\<rparr>)"

text \<open>
  The command line: \<open>args\<close> is \<open>process.argv.slice(2)\<close>, and \<open>args[0] || 'development'\<close>
  takes the default when there is no argument and when the argument is the empty
  string. The constructor is called outside of any \<open>try\<close>: when it throws, Node prints
  the uncaught error and exits with status 1.
\<close>

definition main :: "jsstring list \<Rightarrow> world \<Rightarrow> outcome" where
  "main args w =
     (let env = (case args of
                   [] \<Rightarrow> lit ''development''
                 | a # _ \<Rightarrow> if a = [] then lit ''development'' else a)
      in case DeploymentManager_new env of
           (t, Inl e) \<Rightarrow> \<lparr>trace = Log Banner # t, exit_code = 1\<rparr>
         | (t, Inr dm) \<Rightarrow>
             \<lparr>trace = Log Banner # t @ trace (run dm w), exit_code = exit_code (run dm w)\<rparr>)"

definition executed :: "outcome \<Rightarrow> command list" where
  "executed r = concat (map (\<lambda>e. case e of Exec c \<Rightarrow> [c] | _ \<Rightarrow> []) (trace r))"

text \<open>A world in which every command succeeds and the working tree is clean.\<close>

definition quiet_world :: world where
  "quiet_world =
     \<lparr>git_branch = Some (lit ''main''), git_status = Some [], package_json = True,
      npm_ci = True, npm_run_build = True, dist_dir = True, npm_test = True,
      wrangler_toml = True, wrangler_deploy = True\<rparr>"

section \<open>The build script\<close>

text \<open>
  The steps of the build script are functions from the file system to an error or the
  file system they leave. The lines they print through \<open>this.log\<close> change nothing of that
  and are left out.
\<close>

subsection \<open>The file system\<close>

text \<open>
  A directory lists its entries by name, in the order \<open>readdirSync\<close> returns them. An
  entry is a regular file with its bytes, a directory, or something that is neither (a
  socket, say: \<open>isFile()\<close> and \<open>isDirectory()\<close> are both false for it, and it cannot be
  opened for reading or writing). Symbolic links are left out of the model.

  A path is the list of the names that lead from the working directory to an entry:
  \<open>'./dist'\<close> is \<open>[dist]\<close>, and \<open>path.join(dir, name)\<close> is \<open>dir @ [name]\<close> for a name that
  \<open>readdirSync\<close> returned or that the script spells out.
\<close>

type_synonym bytes = "8 word list"
type_synonym path = "jsstring list"

datatype node = File bytes | Dir "(jsstring \<times> node) list" | Special

text \<open>
  The state of the file system: the entries of the working directory, and whether the
  file system refuses to be written to.
\<close>

record filesystem =
  cwd :: "(jsstring \<times> node) list"
  read_only :: bool

definition root :: "filesystem \<Rightarrow> node" where
  "root fs = Dir (cwd fs)"

text \<open>
  The working directory after a change below it. (The paths of the script are not
  empty, so what comes back from the change is a directory.)
\<close>

fun with_root :: "filesystem \<Rightarrow> node \<Rightarrow> filesystem" where
  "with_root fs (Dir es) = fs\<lparr>cwd := es\<rparr>"
| "with_root fs _ = fs"

datatype errno = EEXIST | EISDIR | ENOENT | ENOTDIR | ENXIO | EROFS

fun lookup :: "node \<Rightarrow> path \<Rightarrow> node option" where
  "lookup n [] = Some n"
| "lookup (Dir es) (x # p) = (case map_of es x of None \<Rightarrow> None | Some m \<Rightarrow> lookup m p)"
| "lookup _ (x # p) = None"

text \<open>\<open>put n p new\<close> makes \<open>new\<close> the entry at \<open>p\<close>; the directory it goes into must exist.\<close>

fun put :: "node \<Rightarrow> path \<Rightarrow> node \<Rightarrow> errno + node" where
  "put n [] new = Inr new"
| "put (Dir es) [x] new = Inr (Dir (AList.update x new es))"
| "put (Dir es) (x # p) new =
     (case map_of es x of
        None \<Rightarrow> Inl ENOENT
      | Some m \<Rightarrow>
          (case put m p new of
             Inl e \<Rightarrow> Inl e
           | Inr m' \<Rightarrow> Inr (Dir (AList.update x m' es))))"
| "put _ (x # p) new = Inl ENOTDIR"

fun remove :: "node \<Rightarrow> path \<Rightarrow> node" where
  "remove (Dir es) [x] = Dir (AList.delete x es)"
| "remove (Dir es) (x # p) =
     (case map_of es x of
        None \<Rightarrow> Dir es
      | Some m \<Rightarrow> Dir (AList.update x (remove m p) es))"
| "remove n _ = n"

text \<open>\<open>mkdirp n p\<close> makes the directory at \<open>p\<close> and the missing directories on the way.\<close>

fun mkdirp :: "node \<Rightarrow> path \<Rightarrow> errno + node" where
  "mkdirp (Dir es) [] = Inr (Dir es)"
| "mkdirp _ [] = Inl EEXIST"
| "mkdirp (Dir es) (x # p) =
     (case mkdirp (case map_of es x of None \<Rightarrow> Dir [] | Some m \<Rightarrow> m) p of
        Inl e \<Rightarrow> Inl e
      | Inr m' \<Rightarrow> Inr (Dir (AList.update x m' es)))"
| "mkdirp _ (x # p) = Inl ENOTDIR"

definition existsSync :: "filesystem \<Rightarrow> path \<Rightarrow> bool" where
  "existsSync fs p = (lookup (root fs) p \<noteq> None)"

text \<open>
  \<open>fs.rmSync(p, { recursive: true, force: true })\<close>: the entry goes with all below it;
  with \<open>force\<close> a path that does not exist is no error.
\<close>

definition rmSync :: "filesystem \<Rightarrow> path \<Rightarrow> errno + filesystem" where
  "rmSync fs p =
     (if lookup (root fs) p = None then Inr fs
      else if read_only fs then Inl EROFS
      else Inr (with_root fs (remove (root fs) p)))"

text \<open>
  \<open>fs.mkdirSync(p, { recursive: true })\<close>: a directory that is there already is no
  error. When the file system refuses the new directory, the recursive \<open>mkdir\<close> of Node
  looks at the path once more and reports what it finds there: \<open>ENOENT\<close>.
\<close>

definition mkdirSync :: "filesystem \<Rightarrow> path \<Rightarrow> errno + filesystem" where
  "mkdirSync fs p =
     (case lookup (root fs) p of
        Some (Dir es) \<Rightarrow> Inr fs
      | Some _ \<Rightarrow> Inl EEXIST
      | None \<Rightarrow>
          (case mkdirp (root fs) p of
             Inl e \<Rightarrow> Inl e
           | Inr r \<Rightarrow> if read_only fs then Inl ENOENT else Inr (with_root fs r)))"

text \<open>
  \<open>fs.writeFileSync(p, content)\<close> opens the file for writing, creating it when it is not
  there. The path is walked first: a directory or a special file at \<open>p\<close>, a missing
  directory on the way and a file in the place of one are reported before the file
  system is asked to write.
\<close>

definition writeFileSync :: "filesystem \<Rightarrow> path \<Rightarrow> bytes \<Rightarrow> errno + filesystem" where
  "writeFileSync fs p content =
     (case lookup (root fs) p of
        Some (Dir es) \<Rightarrow> Inl EISDIR
      | Some Special \<Rightarrow> Inl ENXIO
      | _ \<Rightarrow>
          (case put (root fs) p (File content) of
             Inl e \<Rightarrow> Inl e
           | Inr r \<Rightarrow> if read_only fs then Inl EROFS else Inr (with_root fs r)))"

text \<open>
  \<open>fs.copyFileSync(src, dest)\<close> opens the source for reading, then the destination for
  writing, and then reads: a source that is a directory can be opened, and is reported
  as \<open>EISDIR\<close> only when the destination has been opened without an error.
\<close>

definition copyFileSync :: "filesystem \<Rightarrow> path \<Rightarrow> path \<Rightarrow> errno + filesystem" where
  "copyFileSync fs src dest =
     (case lookup (root fs) src of
        None \<Rightarrow> Inl ENOENT
      | Some Special \<Rightarrow> Inl ENXIO
      | Some (Dir es) \<Rightarrow>
          (case writeFileSync fs dest [] of
             Inl e \<Rightarrow> Inl e
           | Inr fs' \<Rightarrow> Inl EISDIR)
      | Some (File content) \<Rightarrow> writeFileSync fs dest content)"

subsection \<open>The build manager\<close>

definition distDir :: path where
  "distDir = [lit ''dist'']"

text \<open>
  The options object: a property is \<open>Some\<close> boolean, or \<open>None\<close> when it is missing
  (\<open>undefined\<close>), as in \<open>new BuildManager()\<close>.
\<close>

record options =
  production :: "bool option"
  opt_verbose :: "bool option"
  opt_clean :: "bool option"

record BuildManager =
  isProduction :: bool
  verbose :: bool
  clean :: bool

text \<open>The constructor; \<open>node_env\<close> is \<open>process.env.NODE_ENV\<close>.\<close>

definition BuildManager_new :: "options \<Rightarrow> jsstring option \<Rightarrow> BuildManager" where
  "BuildManager_new opts node_env =
     \<lparr>isProduction = (production opts = Some True \<or> node_env = Some (lit ''production'')),
      verbose = (opt_verbose opts = Some True),
      clean = (opt_clean opts \<noteq> Some False)\<rparr>"

text \<open>The options of the command line; \<open>args\<close> is \<open>process.argv.slice(2)\<close>.\<close>

definition cli_options :: "jsstring list \<Rightarrow> options" where
  "cli_options args =
     \<lparr>production = Some (lit ''--production'' \<in> set args \<or> lit ''-p'' \<in> set args),
      opt_verbose = Some (lit ''--verbose'' \<in> set args \<or> lit ''-v'' \<in> set args),
      opt_clean = Some (lit ''--no-clean'' \<notin> set args)\<rparr>"

datatype build_error =
  CleanFailed errno
  | CopyStaticFailed errno
  | GenerateHashesFailed errno

definition cleanBuild :: "BuildManager \<Rightarrow> filesystem \<Rightarrow> build_error + filesystem" where
  "cleanBuild bm fs =
     (if \<not> clean bm then Inr fs
      else (case (if existsSync fs distDir then rmSync fs distDir else Inr fs) of
              Inl e \<Rightarrow> Inl (CleanFailed e)
            | Inr fs1 \<Rightarrow>
                (case mkdirSync fs1 distDir of
                   Inl e \<Rightarrow> Inl (CleanFailed e)
                 | Inr fs2 \<Rightarrow> Inr fs2)))"

record static_file =
  src :: jsstring
  dest :: jsstring

text \<open>The sources are entries of the working directory: \<open>'./index.html'\<close> is \<open>[index.html]\<close>.\<close>

definition staticFiles :: "static_file list" where
  "staticFiles =
     [\<lparr>src = lit ''index.html'', dest = lit ''index.html''\<rparr>,
      \<lparr>src = lit ''article.html'', dest = lit ''article.html''\<rparr>,
      \<lparr>src = lit ''compare.html'', dest = lit ''compare.html''\<rparr>,
      \<lparr>src = lit ''favicon.svg'', dest = lit ''favicon.svg''\<rparr>,
      \<lparr>src = lit ''manifest.json'', dest = lit ''manifest.json''\<rparr>,
      \<lparr>src = lit ''robots.txt'', dest = lit ''robots.txt''\<rparr>,
      \<lparr>src = lit ''sitemap.xml'', dest = lit ''sitemap.xml''\<rparr>]"

text \<open>The loop of \<open>copyStaticFiles\<close>; the first error ends it.\<close>

fun copy_files :: "static_file list \<Rightarrow> filesystem \<Rightarrow> errno + filesystem" where
  "copy_files [] fs = Inr fs"
| "copy_files (file # files) fs =
     (if existsSync fs [src file]
      then (case copyFileSync fs [src file] (distDir @ [dest file]) of
              Inl e \<Rightarrow> Inl e
            | Inr fs' \<Rightarrow> copy_files files fs')
      else copy_files files fs)"

definition copyStaticFiles :: "filesystem \<Rightarrow> build_error + filesystem" where
  "copyStaticFiles fs =
     (case copy_files staticFiles fs of
        Inl e \<Rightarrow> Inl (CopyStaticFailed e)
      | Inr fs' \<Rightarrow> Inr fs')"

text \<open>
  What the loop leaves in the output directory, as a function: \<open>sources\<close> maps the
  names of the working directory to their entries, \<open>m\<close> the names of the output
  directory. A source that is not there leaves \<open>m\<close> alone.
\<close>

primrec copied :: "static_file list \<Rightarrow> (jsstring \<rightharpoonup> node) \<Rightarrow> (jsstring \<rightharpoonup> node) \<Rightarrow> (jsstring \<rightharpoonup> node)" where
  "copied [] sources m = m"
| "copied (f # fs) sources m =
     copied fs sources (case sources (src f) of None \<Rightarrow> m | Some n \<Rightarrow> m(dest f \<mapsto> n))"

text \<open>What \<open>processCSS\<close> and \<open>processJS\<close> write for a file they have read.\<close>

definition processCSS_content :: "BuildManager \<Rightarrow> jsstring \<Rightarrow> jsstring" where
  "processCSS_content bm cssContent = (if isProduction bm then minifyCSS cssContent else cssContent)"

definition processJS_content :: "BuildManager \<Rightarrow> jsstring \<Rightarrow> jsstring" where
  "processJS_content bm jsContent = (if isProduction bm then minifyJS jsContent else jsContent)"

subsection \<open>The hashes\<close>

text \<open>
  \<open>digest('hex')\<close> writes each of the 16 bytes of the digest as two lower-case
  hexadecimal digits, and \<open>substring(0, 8)\<close> keeps the first eight. The digest is a
  128-bit word here, its first byte in the highest bits. MD5 itself belongs to the
  \<open>crypto\<close> module of Node and is a parameter, \<open>md5\<close>.
\<close>

definition hex_digit :: "nat \<Rightarrow> jschar" where
  "hex_digit n = (if n < 10 then 0x0030 + of_nat n else 0x0061 + of_nat (n - 10))"

definition hex :: "128 word \<Rightarrow> jsstring" where
  "hex w = map (\<lambda>i. hex_digit (unat (drop_bit (4 * (31 - i)) w AND 0xF))) [0..<32]"

definition hash8 :: "(bytes \<Rightarrow> 128 word) \<Rightarrow> bytes \<Rightarrow> jsstring" where
  "hash8 md5 content = take 8 (hex (md5 content))"

text \<open>
  The number that a string of lower-case hexadecimal digits denotes, as
  \<open>parseInt(s, 16)\<close> reads it.
\<close>

definition hex_value :: "jschar \<Rightarrow> nat" where
  "hex_value c = (if 0x0030 \<le> c \<and> c \<le> 0x0039 then unat c - 48 else unat c - 87)"

definition hex_number :: "jsstring \<Rightarrow> nat" where
  "hex_number s = foldl (\<lambda>a c. 16 * a + hex_value c) 0 s"

text \<open>The \<open>i\<close>-th group of four bits of a digest, counted from the highest.\<close>

definition nibble :: "128 word \<Rightarrow> nat \<Rightarrow> nat" where
  "nibble w i = unat (drop_bit (4 * (31 - i)) w AND 0xF)"

definition endsWith :: "jsstring \<Rightarrow> jsstring \<Rightarrow> bool" where
  "endsWith s suffix =
     (length suffix \<le> length s \<and> drop (length s - length suffix) s = suffix)"

definition css_or_js :: "jsstring \<Rightarrow> bool" where
  "css_or_js name = (endsWith name (lit ''.css'') \<or> endsWith name (lit ''.js''))"

text \<open>
  \<open>path.relative(distDir, fullPath)\<close> for a \<open>fullPath\<close> below \<open>distDir\<close>: the names behind
  \<open>distDir\<close>, with a slash between them.
\<close>

fun relative :: "path \<Rightarrow> jsstring" where
  "relative [] = []"
| "relative [x] = x"
| "relative (x # y # p) = x @ SLASH # relative (y # p)"

text \<open>
  The inner function \<open>hashFiles\<close> on the entries of a directory; \<open>rel\<close> is the path of that
  directory below \<open>distDir\<close>. \<open>hashMap\<close> is the object that collects the digests:
  \<open>hashMap[relativePath] = hash\<close> writes an own property, in place when there is one of
  that name and behind the others when there is none. (A key ends in \<open>.css\<close> or \<open>.js\<close>,
  so it is no array index, which an object would list first, and not \<open>__proto__\<close>.) The
  test \<open>fs.existsSync(dir)\<close> at the head of \<open>hashFiles\<close> can fail for the first call only,
  the one on \<open>distDir\<close>, and is part of \<open>generateHashes\<close> below; the paths are those of
  POSIX, with a slash between the names.
\<close>

fun hashFiles ::
  "(bytes \<Rightarrow> 128 word) \<Rightarrow> path \<Rightarrow> (jsstring \<times> node) list \<Rightarrow> (jsstring \<times> jsstring) list
     \<Rightarrow> (jsstring \<times> jsstring) list" where
  "hashFiles md5 rel [] hashMap = hashMap"
| "hashFiles md5 rel ((name, Dir es) # files) hashMap =
     hashFiles md5 rel files (hashFiles md5 (rel @ [name]) es hashMap)"
| "hashFiles md5 rel ((name, File content) # files) hashMap =
     hashFiles md5 rel files
       (if css_or_js name
        then AList.update (relative (rel @ [name])) (hash8 md5 content) hashMap
        else hashMap)"
| "hashFiles md5 rel ((name, Special) # files) hashMap = hashFiles md5 rel files hashMap"

text \<open>
  \<open>generateHashes\<close>. \<open>hashFiles(distDir)\<close> returns at once when \<open>distDir\<close> does not exist,
  and \<open>readdirSync\<close> throws when it is no directory. \<open>JSON.stringify\<close> is a parameter,
  \<open>stringify\<close>.
\<close>

definition generateHashes ::
  "(bytes \<Rightarrow> 128 word) \<Rightarrow> ((jsstring \<times> jsstring) list \<Rightarrow> bytes) \<Rightarrow> BuildManager \<Rightarrow> filesystem
     \<Rightarrow> build_error + filesystem" where
  "generateHashes md5 stringify bm fs =
     (if \<not> isProduction bm then Inr fs
      else (case (case lookup (root fs) distDir of
                    None \<Rightarrow> Inr []
                  | Some (Dir es) \<Rightarrow> Inr (hashFiles md5 [] es [])
                  | Some _ \<Rightarrow> Inl ENOTDIR) of
              Inl e \<Rightarrow> Inl (GenerateHashesFailed e)
            | Inr hashMap \<Rightarrow>
                (case writeFileSync fs (distDir @ [lit ''hashes.json'']) (stringify hashMap) of
                   Inl e \<Rightarrow> Inl (GenerateHashesFailed e)
                 | Inr fs' \<Rightarrow> Inr fs')))"

subsection \<open>The files of a tree, as the specification names them\<close>

text \<open>
  \<open>files_under es\<close> lists the regular files below a directory with the entries \<open>es\<close>,
  each with its path from that directory and its bytes.
\<close>

fun files_under :: "(jsstring \<times> node) list \<Rightarrow> (path \<times> bytes) list" where
  "files_under [] = []"
| "files_under ((name, File content) # es) = ([name], content) # files_under es"
| "files_under ((name, Dir sub) # es) =
     map (\<lambda>(p, content). (name # p, content)) (files_under sub) @ files_under es"
| "files_under ((name, Special) # es) = files_under es"

text \<open>
  The entries the specification asks for: one for each regular file below the
  directory whose name ends in \<open>.css\<close> or \<open>.js\<close>, with the relative path as the key and the
  short digest of the bytes as the value. (\<open>rel\<close> is the path of the directory below the
  output root.)
\<close>

definition expected_hashes ::
  "(bytes \<Rightarrow> 128 word) \<Rightarrow> path \<Rightarrow> (jsstring \<times> node) list \<Rightarrow> (jsstring \<times> jsstring) list" where
  "expected_hashes md5 rel es =
     map (\<lambda>(p, content). (relative (rel @ p), hash8 md5 content))
       (filter (\<lambda>(p, content). css_or_js (last p)) (files_under es))"

text \<open>
  What holds of every directory tree: a name has no slash in it, and no two entries of
  one directory have the same name.
\<close>

fun well_formed :: "(jsstring \<times> node) list \<Rightarrow> bool" where
  "well_formed [] = True"
| "well_formed ((name, n) # es) =
     (SLASH \<notin> set name \<and> name \<notin> fst ` set es \<and>
      (case n of Dir sub \<Rightarrow> well_formed sub | _ \<Rightarrow> True) \<and> well_formed es)"

subsection \<open>A sample project\<close>

text \<open>
  A working directory after an earlier production build: two of the static files, and
  an output directory with a style sheet, a script in a subdirectory, a text file and
  the hashes of the earlier build.
\<close>

definition sample_dist :: "(jsstring \<times> node) list" where
  "sample_dist =
     [(lit ''index.html'', File [1, 2]),
      (lit ''css'', Dir [(lit ''style.css'', File [3])]),
      (lit ''js'', Dir [(lit ''main.js'', File [4]), (lit ''notes.txt'', File [5])]),
      (lit ''hashes.json'', File [6])]"

definition sample_fs :: filesystem where
  "sample_fs =
     \<lparr>cwd = [(lit ''index.html'', File [7, 8]),
             (lit ''robots.txt'', File [9]),
             (lit ''dist'', Dir sample_dist)],
      read_only = False\<rparr>"

section \<open>Properties of the minifiers\<close>

lemma after_close_length: "after_close r = Some r' \<Longrightarrow> length r' < length r"
  by (induction r rule: after_close.induct) (auto split: if_splits)

lemma dropWhile_Cons_length: "dropWhile P r = d # r' \<Longrightarrow> length r' < length r"
  using length_dropWhile_le [of P r] by simp


lemma not_space_punct [simp]:
  "\<not> is_space RBRACE" "\<not> is_space LBRACE" "\<not> is_space SEMI" "is_space SP"
  by (simp_all add: is_space_def is_line_terminator_def)

lemma length_strip_block_comments: "length (strip_block_comments s) \<le> length s"
proof (induction s rule: strip_block_comments.induct)
  case (3 c d r)
  show ?case
  proof (cases "after_close r")
    case None
    with 3 show ?thesis by auto
  next
    case (Some r')
    then have "length r' < length r"
      by (rule after_close_length)
    with 3 Some show ?thesis by auto
  qed
qed simp_all

lemma length_strip_line_comments: "length (strip_line_comments s) \<le> length s"
proof (induction s rule: strip_line_comments.induct)
  case (3 c d r)
  have "length (dropWhile (\<lambda>x. \<not> is_line_terminator x) r) \<le> length r"
    by (rule length_dropWhile_le)
  with 3 show ?case by auto
qed simp_all

lemma length_collapse_ws: "length (collapse_ws s) \<le> length s"
proof (induction s rule: collapse_ws.induct)
  case (2 c r)
  have "length (dropWhile is_space r) \<le> length r"
    by (rule length_dropWhile_le)
  with 2 show ?case by auto
qed simp

lemma length_drop_semi_before_brace: "length (drop_semi_before_brace s) \<le> length s"
proof (induction s rule: drop_semi_before_brace.induct)
  case (2 c r)
  show ?case
  proof (cases "dropWhile is_space r")
    case Nil
    from 2 show ?thesis by (simp add: Nil)
  next
    case (Cons d r')
    then have "length r' < length r"
      by (rule dropWhile_Cons_length)
    with 2 Cons show ?thesis by auto
  qed
qed simp

lemma length_clean_braces: "length (clean_braces s) \<le> length s"
proof (induction s rule: clean_braces.induct)
  case (2 c r)
  show ?case
  proof (cases "dropWhile is_space (c # r)")
    case Nil
    from 2 show ?thesis by (simp add: Nil del: dropWhile.simps)
  next
    case (Cons d r')
    then have "length r' < length (c # r)"
      by (rule dropWhile_Cons_length)
    moreover have "length (dropWhile is_space r') \<le> length r'"
      by (rule length_dropWhile_le)
    ultimately show ?thesis
      using 2 by (cases "d = LBRACE") (simp_all add: Cons del: dropWhile.simps)
  qed
qed simp

lemma length_clean_semis: "length (clean_semis s) \<le> length s"
proof (induction s rule: clean_semis.induct)
  case (2 c r)
  have "length (dropWhile is_space r) \<le> length r"
    by (rule length_dropWhile_le)
  with 2 show ?case by auto
qed simp

lemma length_trim: "length (trim s) \<le> length s"
proof -
  have "length (dropWhile is_space (rev (dropWhile is_space s))) \<le> length (rev (dropWhile is_space s))"
    by (rule length_dropWhile_le)
  moreover have "length (dropWhile is_space s) \<le> length s"
    by (rule length_dropWhile_le)
  ultimately show ?thesis by (simp add: trim_def)
qed


text \<open>
  C10. The output of the CSS minifier and of the JS minifier is never longer than the
  input, counted in code units as \<open>String.prototype.length\<close> does: comment removal, the
  collapse of white space, the brace and semicolon clean-up and the trimming each return
  a string that is at most as long as their argument.
\<close>

theorem minify_length_le:
  "length (minifyCSS s) \<le> length s \<and> length (minifyJS s) \<le> length s \<and>
   length (strip_block_comments s) \<le> length s \<and>
   length (strip_line_comments s) \<le> length s \<and>
   length (collapse_ws s) \<le> length s \<and>
   length (drop_semi_before_brace s) \<le> length s \<and>
   length (clean_braces s) \<le> length s \<and>
   length (clean_semis s) \<le> length s \<and>
   length (trim s) \<le> length s"
proof -
  have css: "length (minifyCSS s) \<le> length s"
    unfolding minifyCSS_def
    by (meson length_trim length_clean_semis length_clean_braces
        length_drop_semi_before_brace length_collapse_ws length_strip_block_comments
        order_trans)
  have js: "length (minifyJS s) \<le> length s"
    unfolding minifyJS_def
    by (meson length_trim length_drop_semi_before_brace length_collapse_ws
        length_strip_line_comments length_strip_block_comments order_trans)
  show ?thesis
    using css js
    by (simp add: length_strip_block_comments length_strip_line_comments
        length_collapse_ws length_drop_semi_before_brace length_clean_braces
        length_clean_semis length_trim)
qed

theorem minify_length_le_witness:
  "minifyCSS (lit ''a { b : c ; }  /* x */ d ;  e'') = lit ''a{b : c } d ;e'' \<and>
   length (minifyCSS (lit ''a { b : c ; }  /* x */ d ;  e''))
     \<le> length (lit ''a { b : c ; }  /* x */ d ;  e'') \<and>
   length (minifyJS (lit ''a { b : c ; }  /* x */ d ;  e''))
     \<le> length (lit ''a { b : c ; }  /* x */ d ;  e'')"
proof -
  have "minifyCSS (lit ''a { b : c ; }  /* x */ d ;  e'') = lit ''a{b : c } d ;e''"
    by code_simp
  then show ?thesis
    using minify_length_le [of "lit ''a { b : c ; }  /* x */ d ;  e''"] by simp
qed
lemma no_space_head_simps [simp]:
  "no_space_head []" "no_space_head (c # r) = (\<not> is_space c)"
  by (simp_all add: no_space_head_def)

lemma ws_normal_Cons: "ws_normal (c # r) = ((is_space c \<longrightarrow> c = SP \<and> no_space_head r) \<and> ws_normal r)"
  by (auto simp: no_space_head_def)

lemma no_space_head_dropWhile: "no_space_head (dropWhile is_space r)"
  by (induction r) auto

lemma dropWhile_no_space_head: "no_space_head r \<Longrightarrow> dropWhile is_space r = r"
  by (cases r) auto

lemma no_space_head_collapse_ws: "no_space_head s \<Longrightarrow> no_space_head (collapse_ws s)"
  by (cases s) auto

lemma ws_normal_collapse_ws: "ws_normal (collapse_ws s)"
proof (induction s rule: collapse_ws.induct)
  case (2 c r)
  have "no_space_head (collapse_ws (dropWhile is_space r))"
    by (rule no_space_head_collapse_ws [OF no_space_head_dropWhile])
  with 2 show ?case
    by (simp add: ws_normal_Cons del: ws_normal.simps)
qed simp

lemma collapse_ws_ws_normal: "ws_normal s \<Longrightarrow> collapse_ws s = s"
proof (induction s)
  case (Cons c r)
  then show ?case
    by (auto simp: ws_normal_Cons dropWhile_no_space_head simp del: ws_normal.simps)
qed simp

lemma ws_normal_dropWhile: "ws_normal s \<Longrightarrow> ws_normal (dropWhile P s)"
  by (induction s) auto

lemma ws_normal_tl: "ws_normal (d # r) \<Longrightarrow> ws_normal r"
  by simp

lemma ws_normal_append_left: "ws_normal (xs @ ys) \<Longrightarrow> ws_normal xs"
proof (induction xs)
  case (Cons c r)
  then show ?case
    by (cases r) (auto simp: ws_normal_Cons simp del: ws_normal.simps)
qed simp

lemma ws_normal_trim: "ws_normal s \<Longrightarrow> ws_normal (trim s)"
proof -
  assume h: "ws_normal s"
  let ?t = "dropWhile is_space s"
  have "rev ?t = takeWhile is_space (rev ?t) @ dropWhile is_space (rev ?t)"
    by simp
  then have "rev (rev ?t) = rev (takeWhile is_space (rev ?t) @ dropWhile is_space (rev ?t))"
    by simp
  then have "?t = rev (dropWhile is_space (rev ?t)) @ rev (takeWhile is_space (rev ?t))"
    by (simp only: rev_rev_ident rev_append)
  moreover have "ws_normal ?t"
    using h by (rule ws_normal_dropWhile)
  ultimately have "ws_normal (rev (dropWhile is_space (rev ?t)))"
    using ws_normal_append_left by metis
  then show ?thesis by (simp add: trim_def)
qed

lemma drop_semi_before_brace_head:
  "no_space_head s \<Longrightarrow> no_space_head (drop_semi_before_brace s)"
  by (cases s) (auto split: list.splits)

lemma ws_normal_drop_semi_before_brace:
  "ws_normal s \<Longrightarrow> ws_normal (drop_semi_before_brace s)"
proof (induction s rule: drop_semi_before_brace.induct)
  case (2 c r)
  from 2(5) have r: "ws_normal r" and c: "is_space c \<longrightarrow> c = SP \<and> no_space_head r"
    by (simp_all add: ws_normal_Cons del: ws_normal.simps)
  have keep: "ws_normal (drop_semi_before_brace r) \<Longrightarrow> ws_normal (c # drop_semi_before_brace r)"
    using c by (simp add: ws_normal_Cons drop_semi_before_brace_head del: ws_normal.simps)
  show ?case
  proof (cases "dropWhile is_space r")
    case Nil
    from 2 r keep show ?thesis by (auto simp add: Nil simp del: ws_normal.simps)
  next
    case (Cons d r')
    have "ws_normal (dropWhile is_space r)"
      using r by (rule ws_normal_dropWhile)
    then have "ws_normal r'"
      by (simp add: Cons)
    with 2 r keep Cons show ?thesis
      by (auto simp: ws_normal_Cons simp del: ws_normal.simps)
  qed
qed simp

lemma clean_braces_head: "no_space_head s \<Longrightarrow> no_space_head (clean_braces s)"
  by (cases s) (auto split: list.splits)

lemma ws_normal_clean_braces: "ws_normal s \<Longrightarrow> ws_normal (clean_braces s)"
proof (induction s rule: clean_braces.induct)
  case (2 c r)
  from 2(4) have r: "ws_normal r" and c: "is_space c \<longrightarrow> c = SP \<and> no_space_head r"
    by (simp_all add: ws_normal_Cons del: ws_normal.simps)
  have keep: "ws_normal (clean_braces r) \<Longrightarrow> ws_normal (c # clean_braces r)"
    using c by (simp add: ws_normal_Cons clean_braces_head del: ws_normal.simps)
  show ?case
  proof (cases "dropWhile is_space (c # r)")
    case Nil
    from 2 r keep show ?thesis by (simp add: Nil del: ws_normal.simps dropWhile.simps)
  next
    case (Cons d r')
    have "ws_normal (dropWhile is_space (c # r))"
      using 2(4) by (rule ws_normal_dropWhile)
    then have "ws_normal r'"
      by (simp add: Cons del: dropWhile.simps)
    then have "ws_normal (dropWhile is_space r')"
      by (rule ws_normal_dropWhile)
    with 2 r keep Cons show ?thesis
      by (cases "d = LBRACE") (simp_all add: ws_normal_Cons del: ws_normal.simps dropWhile.simps)
  qed
qed simp

lemma clean_semis_head: "no_space_head s \<Longrightarrow> no_space_head (clean_semis s)"
  by (cases s) auto

lemma ws_normal_clean_semis: "ws_normal s \<Longrightarrow> ws_normal (clean_semis s)"
proof (induction s rule: clean_semis.induct)
  case (2 c r)
  from 2(3) have r: "ws_normal r" and c: "is_space c \<longrightarrow> c = SP \<and> no_space_head r"
    by (simp_all add: ws_normal_Cons del: ws_normal.simps)
  have "ws_normal (dropWhile is_space r)"
    using r by (rule ws_normal_dropWhile)
  with 2 r c show ?case
    by (auto simp: ws_normal_Cons clean_semis_head simp del: ws_normal.simps)
qed simp

lemma ws_normal_minifyCSS: "ws_normal (minifyCSS s)"
  unfolding minifyCSS_def
  by (intro ws_normal_trim ws_normal_clean_semis ws_normal_clean_braces
      ws_normal_drop_semi_before_brace ws_normal_collapse_ws)

lemma ws_normal_minifyJS: "ws_normal (minifyJS s)"
  unfolding minifyJS_def
  by (intro ws_normal_trim ws_normal_drop_semi_before_brace ws_normal_collapse_ws)


text \<open>
  C5. On the output of a first application of \<open>minifyCSS\<close> or of \<open>minifyJS\<close> the
  white-space collapse \<open>.replace(/\s+/g, ' ')\<close> changes nothing: every white-space code
  unit left is a single space with no white space next to it, and the later steps of
  the minifiers keep that.
\<close>

theorem collapse_ws_minify_idem:
  "collapse_ws (minifyCSS s) = minifyCSS s \<and> collapse_ws (minifyJS s) = minifyJS s"
  by (simp add: collapse_ws_ws_normal ws_normal_minifyCSS ws_normal_minifyJS)

theorem collapse_ws_minify_idem_witness:
  "minifyJS (lit ''x = 1 ;  }  // done'') = lit ''x = 1 }'' \<and>
   collapse_ws (minifyCSS (lit ''x = 1 ;  }  // done'')) = minifyCSS (lit ''x = 1 ;  }  // done'') \<and>
   collapse_ws (lit ''x = 1 }'') = lit ''x = 1 }''"
proof -
  have e: "minifyJS (lit ''x = 1 ;  }  // done'') = lit ''x = 1 }''"
    by code_simp
  from collapse_ws_minify_idem [of "lit ''x = 1 ;  }  // done''"] e show ?thesis
    by simp
qed

section \<open>Properties of the deployment script\<close>

lemma and_then_simps [simp]:
  "and_then (t, Inl e) b = (t, Inl e)"
  "and_then (t, Inr u) (t', r) = (t @ t', r)"
  by (simp_all add: and_then_def)

lemmas step_defs =
  preDeploymentChecks_def buildProject_def runTests_def deploy_def postDeployment_def
  check_branch_def check_status_def Let_def

lemma CONFIG_constructor: "CONFIG (lit ''constructor'') = Some Inherited"
  by (simp add: CONFIG_def lit_def object_prototype_names_def)

text \<open>
  An environment name that \<open>CONFIG\<close> does not know, neither as an own nor as an inherited
  property, ends the process with status 1 after the banner, with no command executed.
\<close>

lemma main_unknown_environment:
  assumes "CONFIG env = None" and "env \<noteq> []"
  shows "main (env # args) w = \<lparr>trace = [Log Banner], exit_code = 1\<rparr>"
  using assms by (simp add: main_def DeploymentManager_new_def)

text \<open>Without an argument the environment is \<open>development\<close>.\<close>

lemma main_default_environment: "main [] w = main [lit ''development''] w"
  by (simp add: main_def lit_def)

text \<open>
  C2. The claim: an environment name outside of \<open>development\<close>, \<open>staging\<close> and
  \<open>production\<close> ends the process with a non-zero status before any external command is
  executed. The name \<open>constructor\<close> is outside of the three, and the run for it executes
  \<open>git branch --show-current\<close> first of all, whatever the world: \<open>CONFIG['constructor']\<close>
  is the inherited \<open>Object\<close>, which \<open>if (!this.config)\<close> lets through. In a world where
  all commands succeed it executes four commands before the missing \<open>buildDir\<close> ends it.
\<close>

theorem main_constructor_executes_commands:
  "lit ''constructor'' \<notin> set [lit ''development'', lit ''staging'', lit ''production''] \<and>
   take 1 (executed (main [lit ''constructor''] w)) = [GitBranchShowCurrent] \<and>
   executed (main [lit ''constructor''] quiet_world) =
     [GitBranchShowCurrent, GitStatusPorcelain, NpmCi, NpmRunBuild] \<and>
   exit_code (main [lit ''constructor''] quiet_world) = 1"
proof -
  have ne: "lit ''constructor'' \<noteq> []"
    by (simp add: lit_def)
  have out: "lit ''constructor'' \<notin> set [lit ''development'', lit ''staging'', lit ''production'']"
    by (simp add: lit_def)
  have first: "take 1 (executed (main [lit ''constructor''] w)) = [GitBranchShowCurrent]"
    by (simp add: main_def ne DeploymentManager_new_def CONFIG_constructor executed_def
        run_def step_defs split: option.splits)
  have quiet: "executed (main [lit ''constructor''] quiet_world) =
      [GitBranchShowCurrent, GitStatusPorcelain, NpmCi, NpmRunBuild] \<and>
    exit_code (main [lit ''constructor''] quiet_world) = 1"
    by (simp add: main_def ne DeploymentManager_new_def CONFIG_constructor executed_def
        run_def step_defs quiet_world_def trim_def)
  from out first quiet show ?thesis by blast
qed

text \<open>
  C3. In a run that executes the test command and finds it failing: for the production
  environment the deployment step is not entered and the exit status is 1; for every
  other environment the failure is a warning and the deployment step is entered.
\<close>

theorem failing_tests_gate_deploy:
  assumes "Exec NpmTest \<in> set (trace (run dm w))" and "\<not> npm_test w"
  shows "(environment dm = lit ''production'' \<longrightarrow>
            Enter Deploy \<notin> set (trace (run dm w)) \<and>
            Exec (deployCommand dm) \<notin> set (trace (run dm w)) \<and>
            exit_code (run dm w) = 1) \<and>
         (environment dm \<noteq> lit ''production'' \<longrightarrow>
            Warn TestsFailedContinuing \<in> set (trace (run dm w)) \<and>
            Enter Deploy \<in> set (trace (run dm w)))"
  using assms
  by (auto simp add: run_def step_defs deployCommand_def split: option.splits if_splits)

theorem failing_tests_gate_deploy_witness:
  "Exec NpmTest \<in> set (trace (run \<lparr>environment = lit ''production'',
       config = the (CONFIG (lit ''production''))\<rparr> (quiet_world\<lparr>npm_test := False\<rparr>))) \<and>
   \<not> npm_test (quiet_world\<lparr>npm_test := False\<rparr>) \<and>
   Enter Deploy \<notin> set (trace (run \<lparr>environment = lit ''production'',
       config = the (CONFIG (lit ''production''))\<rparr> (quiet_world\<lparr>npm_test := False\<rparr>))) \<and>
   exit_code (run \<lparr>environment = lit ''production'',
       config = the (CONFIG (lit ''production''))\<rparr> (quiet_world\<lparr>npm_test := False\<rparr>)) = 1 \<and>
   Warn TestsFailedContinuing \<in> set (trace (run \<lparr>environment = lit ''staging'',
       config = the (CONFIG (lit ''staging''))\<rparr> (quiet_world\<lparr>npm_test := False\<rparr>))) \<and>
   Enter Deploy \<in> set (trace (run \<lparr>environment = lit ''staging'',
       config = the (CONFIG (lit ''staging''))\<rparr> (quiet_world\<lparr>npm_test := False\<rparr>)))"
proof -
  let ?w = "quiet_world\<lparr>npm_test := False\<rparr>"
  let ?p = "\<lparr>environment = lit ''production'', config = the (CONFIG (lit ''production''))\<rparr>"
  let ?s = "\<lparr>environment = lit ''staging'', config = the (CONFIG (lit ''staging''))\<rparr>"
  have cp: "CONFIG (lit ''production'') = Some (Own \<lparr>buildDir = lit ''./dist'',
      deployTarget = lit ''catipedia.com'', branch = lit ''main''\<rparr>)"
    by (simp add: CONFIG_def lit_def)
  have cs: "CONFIG (lit ''staging'') = Some (Own \<lparr>buildDir = lit ''./dist'',
      deployTarget = lit ''staging.catipedia.com'', branch = lit ''staging''\<rparr>)"
    by (simp add: CONFIG_def lit_def)
  have sp: "lit ''staging'' \<noteq> lit ''production''"
    by (simp add: lit_def)
  have w: "\<not> npm_test ?w"
    by simp
  have tp: "Exec NpmTest \<in> set (trace (run ?p ?w))"
    by (simp add: run_def step_defs quiet_world_def cp)
  have ts: "Exec NpmTest \<in> set (trace (run ?s ?w))"
    by (simp add: run_def step_defs quiet_world_def cs sp)
  from failing_tests_gate_deploy [OF tp w] failing_tests_gate_deploy [OF ts w] tp w sp
  show ?thesis by simp
qed

text \<open>
  C8. Whatever the two git commands answer (\<open>gb\<close> and \<open>gs\<close>: an output, or \<open>None\<close> when
  the command fails), the pre-deployment checks complete and the build step is entered,
  provided that \<open>package.json\<close> is there, which is the one check of the step that throws.
  A failing git command is reported on \<open>console.error\<close>, another branch and a dirty
  working tree on \<open>console.warn\<close>.
\<close>

theorem git_checks_never_abort:
  assumes "package_json w"
  shows "snd (preDeploymentChecks dm (w\<lparr>git_branch := gb, git_status := gs\<rparr>)) = Inr () \<and>
         Enter BuildProject \<in> set (trace (run dm (w\<lparr>git_branch := gb, git_status := gs\<rparr>))) \<and>
         (gb = None \<longrightarrow> Err GitBranchCheckFailed
            \<in> set (fst (preDeploymentChecks dm (w\<lparr>git_branch := gb, git_status := gs\<rparr>)))) \<and>
         (gs = None \<longrightarrow> Err GitStatusCheckFailed
            \<in> set (fst (preDeploymentChecks dm (w\<lparr>git_branch := gb, git_status := gs\<rparr>)))) \<and>
         (\<forall>out. gb = Some out \<and> Some (trim out) \<noteq> config_branch (config dm) \<longrightarrow>
            Warn (BranchMismatch (trim out) (config_branch (config dm)))
            \<in> set (fst (preDeploymentChecks dm (w\<lparr>git_branch := gb, git_status := gs\<rparr>)))) \<and>
         (\<forall>status. gs = Some status \<and> trim status \<noteq> [] \<longrightarrow>
            Warn UncommittedChanges
            \<in> set (fst (preDeploymentChecks dm (w\<lparr>git_branch := gb, git_status := gs\<rparr>))))"
  using assms
  by (auto simp add: run_def step_defs split: option.splits if_splits)

theorem git_checks_never_abort_witness:
  "package_json quiet_world \<and>
   snd (preDeploymentChecks \<lparr>environment = lit ''production'',
       config = the (CONFIG (lit ''production''))\<rparr>
     (quiet_world\<lparr>git_branch := None, git_status := Some (lit '' M index.html'')\<rparr>)) = Inr () \<and>
   Enter BuildProject \<in> set (trace (run \<lparr>environment = lit ''production'',
       config = the (CONFIG (lit ''production''))\<rparr>
     (quiet_world\<lparr>git_branch := None, git_status := Some (lit '' M index.html'')\<rparr>)))"
proof -
  have p: "package_json quiet_world"
    by (simp add: quiet_world_def)
  from git_checks_never_abort [OF p, where gb = None
      and gs = "Some (lit '' M index.html'')"
      and dm = "\<lparr>environment = lit ''production'',
        config = the (CONFIG (lit ''production''))\<rparr>"] p
  show ?thesis by simp
qed

section \<open>Properties of the build script\<close>

lemma lookup_single [simp]: "lookup (Dir es) [x] = map_of es x"
  by (cases "map_of es x") simp_all

lemma lookup_root_single [simp]: "lookup (root fs) [x] = map_of (cwd fs) x"
  unfolding root_def by (rule lookup_single)

lemma cleanBuild_skipped: "\<not> clean bm \<Longrightarrow> cleanBuild bm fs = Inr fs"
  by (simp add: cleanBuild_def)

text \<open>
  On a file system that refuses to be written to, cleaning fails: with the error of
  \<open>rmSync\<close> when the output directory is there, with that of \<open>mkdirSync\<close> when it is not.
\<close>

lemma cleanBuild_read_only:
  "clean bm \<Longrightarrow> read_only fs \<Longrightarrow>
   cleanBuild bm fs =
     Inl (CleanFailed (if existsSync fs distDir then EROFS else ENOENT))"
  by (auto simp add: cleanBuild_def existsSync_def rmSync_def mkdirSync_def distDir_def
      root_def split: option.splits node.splits)

text \<open>
  C6. When cleaning is not disabled and the file system can be written to, \<open>cleanBuild\<close>
  returns without an error and leaves the output directory existing and empty, whatever
  was at \<open>./dist\<close> before: a directory with files, nothing, or a file. The other entries
  of the working directory stay as they were.
\<close>

theorem cleanBuild_leaves_empty_dist:
  assumes "clean bm" and "\<not> read_only fs"
  shows "\<exists>fs'. cleanBuild bm fs = Inr fs' \<and>
           lookup (root fs') distDir = Some (Dir []) \<and>
           (\<forall>x. x \<noteq> lit ''dist'' \<longrightarrow> lookup (root fs') [x] = lookup (root fs) [x])"
  using assms
  by (auto simp add: cleanBuild_def existsSync_def rmSync_def mkdirSync_def distDir_def
      update_conv' delete_conv' root_def split: option.splits node.splits)

theorem cleanBuild_leaves_empty_dist_witness:
  "clean (BuildManager_new (cli_options []) None) \<and> \<not> read_only sample_fs \<and>
   existsSync sample_fs distDir \<and>
   \<not> existsSync (sample_fs\<lparr>cwd := []\<rparr>) distDir \<and>
   (\<exists>fs'. cleanBuild (BuildManager_new (cli_options []) None) sample_fs = Inr fs' \<and>
      lookup (root fs') distDir = Some (Dir [])) \<and>
   (\<exists>fs'. cleanBuild (BuildManager_new (cli_options []) None) (sample_fs\<lparr>cwd := []\<rparr>) = Inr fs' \<and>
      lookup (root fs') distDir = Some (Dir []))"
proof -
  have c: "clean (BuildManager_new (cli_options []) None)"
    by (simp add: BuildManager_new_def cli_options_def)
  have w: "\<not> read_only sample_fs" "\<not> read_only (sample_fs\<lparr>cwd := []\<rparr>)"
    by (simp_all add: sample_fs_def)
  have e: "existsSync sample_fs distDir" "\<not> existsSync (sample_fs\<lparr>cwd := []\<rparr>) distDir"
    by (simp_all add: existsSync_def distDir_def sample_fs_def lit_def)
  from cleanBuild_leaves_empty_dist [OF c w(1)] cleanBuild_leaves_empty_dist [OF c w(2)] c w e
  show ?thesis by blast
qed

text \<open>
  C9. The build manager made from the command line is in production mode if and only
  if \<open>--production\<close> or \<open>-p\<close> is among the arguments or \<open>NODE_ENV\<close> is \<open>production\<close>. With
  \<open>NODE_ENV\<close> set so and no argument at all, CSS and JS are minified.
\<close>

theorem isProduction_flag_or_NODE_ENV:
  "isProduction (BuildManager_new (cli_options args) node_env) =
     (lit ''--production'' \<in> set args \<or> lit ''-p'' \<in> set args \<or>
      node_env = Some (lit ''production'')) \<and>
   isProduction (BuildManager_new (cli_options []) (Some (lit ''production''))) \<and>
   processCSS_content (BuildManager_new (cli_options []) (Some (lit ''production''))) text =
     minifyCSS text \<and>
   processJS_content (BuildManager_new (cli_options []) (Some (lit ''production''))) text =
     minifyJS text"
  by (simp add: BuildManager_new_def cli_options_def processCSS_content_def
      processJS_content_def)

theorem isProduction_flag_or_NODE_ENV_witness:
  "isProduction (BuildManager_new (cli_options [lit ''--verbose'']) (Some (lit ''production''))) \<and>
   \<not> isProduction (BuildManager_new (cli_options [lit ''--verbose'']) (Some (lit ''development''))) \<and>
   \<not> isProduction (BuildManager_new (cli_options [lit ''--verbose'']) None)"
  using isProduction_flag_or_NODE_ENV [of "[lit ''--verbose'']" "Some (lit ''production'')"]
    isProduction_flag_or_NODE_ENV [of "[lit ''--verbose'']" "Some (lit ''development'')"]
    isProduction_flag_or_NODE_ENV [of "[lit ''--verbose'']" None]
  by (simp add: lit_def)

lemma hex_digit_range: "n < 16 \<Longrightarrow> hex_digit n \<in> set (lit ''0123456789abcdef'')"
proof -
  assume "n < 16"
  then have "n \<in> set [0..<16]"
    by simp
  moreover have "\<forall>k\<in>set [0..<16]. hex_digit k \<in> set (lit ''0123456789abcdef'')"
    by code_simp
  ultimately show ?thesis
    by blast
qed

lemma nibble_less: "unat ((w :: 128 word) AND 0xF) < 16"
proof -
  have "w AND 0xF \<le> 0xF"
    by (rule word_and_le1)
  then have "unat (w AND 0xF) \<le> unat (0xF :: 128 word)"
    by (simp add: word_le_nat_alt)
  then show ?thesis by simp
qed

lemma set_hex: "set (hex w) \<subseteq> set (lit ''0123456789abcdef'')"
  unfolding hex_def using hex_digit_range [OF nibble_less] by auto

lemma hex_value_digit: "n < 16 \<Longrightarrow> hex_value (hex_digit n) = n"
proof -
  assume "n < 16"
  then have "n \<in> set [0..<16]"
    by simp
  moreover have "\<forall>k\<in>set [0..<16]. hex_value (hex_digit k) = k"
    by code_simp
  ultimately show ?thesis
    by blast
qed

lemma low_nibble: "unat ((v :: 128 word) AND 0xF) = unat v mod 16"
proof -
  have "(0xF :: 128 word) = mask 4"
    by (simp add: mask_eq_exp_minus_1)
  then have "v AND 0xF = take_bit 4 v"
    by (simp add: take_bit_eq_mask)
  then show ?thesis
    by (simp add: take_bit_eq_mod unat_mod)
qed

lemma high_nibbles: "unat (drop_bit 4 (v :: 128 word)) = unat v div 16"
  by (simp add: drop_bit_eq_div unat_div)

lemma split_nibble: "16 * unat (drop_bit 4 v) + unat (v AND 0xF) = unat (v :: 128 word)"
  by (simp add: low_nibble high_nibbles)

lemma hex_prefix_number:
  "k \<le> 32 \<Longrightarrow>
   foldl (\<lambda>a c. 16 * a + hex_value c) 0 (map (\<lambda>i. hex_digit (nibble w i)) [0..<k]) =
     unat (drop_bit (4 * (32 - k)) w)"
proof (induction k)
  case 0
  have "drop_bit 128 w = 0"
    by (rule drop_bit_word_beyond) simp
  then have "unat (drop_bit (4 * (32 - 0)) w) = 0"
    by simp
  then show ?case
    by (simp only: upt_0 list.map foldl_Nil)
next
  case (Suc k)
  let ?v = "drop_bit (4 * (31 - k)) w"
  let ?f = "\<lambda>a c. 16 * a + hex_value c"
  let ?d = "\<lambda>i. hex_digit (nibble w i)"
  have k: "k \<le> 31"
    using Suc.prems by simp
  have lt: "nibble w k < 16"
    unfolding nibble_def low_nibble by simp
  have n: "4 * (32 - k) = 4 + 4 * (31 - k)"
    using k by arith
  have "drop_bit (4 * (32 - k)) w = drop_bit 4 ?v"
    unfolding n by (simp only: drop_bit_drop_bit add.commute)
  moreover have "foldl ?f 0 (map ?d [0..<k]) = unat (drop_bit (4 * (32 - k)) w)"
    using k by (intro Suc.IH) simp
  ultimately have ih: "foldl ?f 0 (map ?d [0..<k]) = unat (drop_bit 4 ?v)"
    by (simp only:)
  have "foldl ?f 0 (map ?d [0..<Suc k]) = ?f (foldl ?f 0 (map ?d [0..<k])) (?d k)"
    by (simp only: upt_Suc_append [OF le0] map_append list.map foldl_append foldl_Cons foldl_Nil)
  also have "\<dots> = 16 * unat (drop_bit 4 ?v) + nibble w k"
    by (simp only: ih hex_value_digit [OF lt])
  also have "\<dots> = unat ?v"
    unfolding nibble_def by (rule split_nibble)
  also have "?v = drop_bit (4 * (32 - Suc k)) w"
    by simp
  finally show ?case .
qed

text \<open>
  C4. For every content the digest that \<open>generateHashes\<close> records is eight code units
  long, each of them one of \<open>0123456789abcdef\<close>. It is the first eight hexadecimal digits
  of the MD5 digest of the bytes: the \<open>i\<close>-th digit writes the \<open>i\<close>-th group of four bits
  of the digest, counted from the highest, and read as a hexadecimal number the eight
  digits are the highest 32 bits of the digest. It depends on the bytes only.
\<close>

theorem hash8_short_hex_digest:
  "length (hash8 md5 content) = 8 \<and>
   set (hash8 md5 content) \<subseteq> set (lit ''0123456789abcdef'') \<and>
   hash8 md5 content = take 8 (hex (md5 content)) \<and>
   (\<forall>i<8. hash8 md5 content ! i =
      hex_digit (unat (drop_bit (4 * (31 - i)) (md5 content) AND 0xF))) \<and>
   hex_number (hash8 md5 content) = unat (drop_bit 96 (md5 content)) \<and>
   (content = content' \<longrightarrow> hash8 md5 content = hash8 md5 content')"
proof -
  have "set (take 8 (hex w)) \<subseteq> set (lit ''0123456789abcdef'')" for w
    using set_hex [of w] set_take_subset [of 8 "hex w"] by blast
  then have old: "length (hash8 md5 content) = 8 \<and>
      set (hash8 md5 content) \<subseteq> set (lit ''0123456789abcdef'') \<and>
      hash8 md5 content = take 8 (hex (md5 content))"
    by (simp add: hash8_def hex_def)
  have h: "hash8 md5 content = map (\<lambda>i. hex_digit (nibble (md5 content) i)) [0..<8]"
    by (simp add: hash8_def hex_def nibble_def take_map)
  have "foldl (\<lambda>a c. 16 * a + hex_value c) 0
      (map (\<lambda>i. hex_digit (nibble (md5 content) i)) [0..<8]) =
      unat (drop_bit (4 * (32 - 8)) (md5 content))"
    by (rule hex_prefix_number) simp
  then have number: "hex_number (hash8 md5 content) = unat (drop_bit 96 (md5 content))"
    unfolding hex_number_def h by simp
  have digits: "\<forall>i<8. hash8 md5 content ! i =
      hex_digit (unat (drop_bit (4 * (31 - i)) (md5 content) AND 0xF))"
    unfolding h by (simp add: nibble_def)
  from old number digits show ?thesis
    by blast
qed

theorem hash8_short_hex_digest_witness:
  "hash8 (\<lambda>_. 0xd41d8cd98f00b204e9800998ecf8427e) [] = lit ''d41d8cd9'' \<and>
   length (hash8 (\<lambda>_. 0xd41d8cd98f00b204e9800998ecf8427e) []) = 8 \<and>
   set (lit ''d41d8cd9'') \<subseteq> set (lit ''0123456789abcdef'') \<and>
   hex_number (lit ''d41d8cd9'') = 0xd41d8cd9"
proof -
  let ?md5 = "\<lambda>_ :: bytes. 0xd41d8cd98f00b204e9800998ecf8427e :: 128 word"
  have e: "hash8 ?md5 [] = lit ''d41d8cd9''"
    by code_simp
  have top: "unat (drop_bit 96 (0xd41d8cd98f00b204e9800998ecf8427e :: 128 word)) = 0xd41d8cd9"
    by (simp add: drop_bit_eq_div unat_div)
  have l: "length (hash8 ?md5 []) = 8"
    and s: "set (hash8 ?md5 []) \<subseteq> set (lit ''0123456789abcdef'')"
    and n: "hex_number (hash8 ?md5 []) = unat (drop_bit 96 (?md5 []))"
    using hash8_short_hex_digest [of ?md5 "[]" "[]"]
    by blast+
  from e l s [unfolded e] n [unfolded e top] show ?thesis
    by blast
qed

lemma lookup_dist_entry:
  "lookup (root fs) (distDir @ [d]) =
     (case map_of (cwd fs) (lit ''dist'') of Some (Dir sub) \<Rightarrow> map_of sub d | _ \<Rightarrow> None)"
  by (simp add: root_def distDir_def split: option.splits node.splits)

lemma lookup_distDir: "lookup (root fs) distDir = map_of (cwd fs) (lit ''dist'')"
  by (simp add: distDir_def)

lemma copyFileSync_into_dist:
  assumes "\<not> read_only fs" and "map_of (cwd fs) (lit ''dist'') = Some (Dir sub)"
    and "map_of (cwd fs) s = Some (File c)"
    and "\<forall>n. map_of sub d = Some n \<longrightarrow> (\<exists>c'. n = File c')"
  shows "copyFileSync fs [s] (distDir @ [d]) =
           Inr (fs\<lparr>cwd := AList.update (lit ''dist'') (Dir (AList.update d (File c) sub)) (cwd fs)\<rparr>)"
  using assms
  by (auto simp add: copyFileSync_def writeFileSync_def lookup_dist_entry
      root_def distDir_def split: option.splits node.splits)

lemma copied_cong:
  "(\<And>f. f \<in> set files \<Longrightarrow> s1 (src f) = s2 (src f)) \<Longrightarrow> copied files s1 m = copied files s2 m"
  by (induction files arbitrary: m) simp_all

lemma copy_files_copied:
  assumes "\<not> read_only fs" and "map_of (cwd fs) (lit ''dist'') = Some (Dir sub)"
    and "\<forall>f\<in>set files. \<forall>n. map_of (cwd fs) (src f) = Some n \<longrightarrow> (\<exists>c. n = File c)"
    and "\<forall>f\<in>set files. \<forall>n. map_of sub (dest f) = Some n \<longrightarrow> (\<exists>c. n = File c)"
  shows "\<exists>fs' sub'. copy_files files fs = Inr fs' \<and> \<not> read_only fs' \<and>
           map_of (cwd fs') (lit ''dist'') = Some (Dir sub') \<and>
           (\<forall>x. x \<noteq> lit ''dist'' \<longrightarrow> map_of (cwd fs') x = map_of (cwd fs) x) \<and>
           map_of sub' = copied files (map_of (cwd fs)) (map_of sub)"
  using assms
proof (induction files arbitrary: fs sub)
  case Nil
  then show ?case by simp
next
  case (Cons a files)
  show ?case
  proof (cases "map_of (cwd fs) (src a)")
    case None
    have "\<exists>fs' sub'. copy_files files fs = Inr fs' \<and> \<not> read_only fs' \<and>
           map_of (cwd fs') (lit ''dist'') = Some (Dir sub') \<and>
           (\<forall>x. x \<noteq> lit ''dist'' \<longrightarrow> map_of (cwd fs') x = map_of (cwd fs) x) \<and>
           map_of sub' = copied files (map_of (cwd fs)) (map_of sub)"
      using Cons.prems by (intro Cons.IH) simp_all
    then show ?thesis
      using None by (simp add: existsSync_def)
  next
    case (Some n)
    with Cons.prems(3) obtain c where c: "map_of (cwd fs) (src a) = Some (File c)"
      by auto
    let ?sub1 = "AList.update (dest a) (File c) sub"
    let ?fs1 = "fs\<lparr>cwd := AList.update (lit ''dist'') (Dir ?sub1) (cwd fs)\<rparr>"
    have copy: "copyFileSync fs [src a] (distDir @ [dest a]) = Inr ?fs1"
      using Cons.prems c by (intro copyFileSync_into_dist) simp_all
    have same: "map_of (cwd ?fs1) x = map_of (cwd fs) x" if "x \<noteq> lit ''dist''" for x
      using that by (simp add: update_conv')
    have srcs: "map_of (cwd ?fs1) (src f) = map_of (cwd fs) (src f)" if "f \<in> set (a # files)" for f
    proof (cases "src f = lit ''dist''")
      case True
      with Cons.prems(2,3) that show ?thesis by auto
    next
      case False
      then show ?thesis by (rule same)
    qed
    have "\<exists>fs' sub'. copy_files files ?fs1 = Inr fs' \<and> \<not> read_only fs' \<and>
           map_of (cwd fs') (lit ''dist'') = Some (Dir sub') \<and>
           (\<forall>x. x \<noteq> lit ''dist'' \<longrightarrow> map_of (cwd fs') x = map_of (cwd ?fs1) x) \<and>
           map_of sub' = copied files (map_of (cwd ?fs1)) (map_of ?sub1)"
    proof (intro Cons.IH)
      show "\<not> read_only ?fs1" using Cons.prems(1) by simp
      show "map_of (cwd ?fs1) (lit ''dist'') = Some (Dir ?sub1)" by (simp add: update_conv')
      show "\<forall>f\<in>set files. \<forall>n. map_of (cwd ?fs1) (src f) = Some n \<longrightarrow> (\<exists>c. n = File c)"
        using Cons.prems(3) srcs by (metis list.set_intros(2))
      show "\<forall>f\<in>set files. \<forall>n. map_of ?sub1 (dest f) = Some n \<longrightarrow> (\<exists>c. n = File c)"
        using Cons.prems(4) by (auto simp add: update_conv')
    qed
    then obtain fs' sub' where r: "copy_files files ?fs1 = Inr fs'" "\<not> read_only fs'"
        "map_of (cwd fs') (lit ''dist'') = Some (Dir sub')"
        "\<forall>x. x \<noteq> lit ''dist'' \<longrightarrow> map_of (cwd fs') x = map_of (cwd ?fs1) x"
        "map_of sub' = copied files (map_of (cwd ?fs1)) (map_of ?sub1)"
      by blast
    have agree: "copied files (map_of (cwd ?fs1)) (map_of ?sub1) =
        copied files (map_of (cwd fs)) (map_of ?sub1)"
      by (rule copied_cong) (use srcs in auto)
    have run: "copy_files (a # files) fs = Inr fs'"
      using c copy r(1) by (simp add: existsSync_def)
    have keep: "\<forall>x. x \<noteq> lit ''dist'' \<longrightarrow> map_of (cwd fs') x = map_of (cwd fs) x"
      using r(4) same by simp
    have "map_of ?sub1 = (map_of sub)(dest a \<mapsto> File c)"
      by (rule update_conv')
    then have "copied (a # files) (map_of (cwd fs)) (map_of sub) =
        copied files (map_of (cwd fs)) (map_of ?sub1)"
      using c by simp
    with r(5) agree have "map_of sub' = copied (a # files) (map_of (cwd fs)) (map_of sub)"
      by simp
    with run r(2,3) keep show ?thesis by blast
  qed
qed

lemma copied_untouched:
  "(\<forall>f\<in>set files. dest f = d \<longrightarrow> sources (src f) = None) \<Longrightarrow> copied files sources m d = m d"
  by (induction files arbitrary: m) (auto split: option.splits)

lemma copied_some:
  "\<exists>g\<in>set files. dest g = d \<and> sources (src g) \<noteq> None \<Longrightarrow>
   \<exists>g\<in>set files. dest g = d \<and> sources (src g) \<noteq> None \<and>
     copied files sources m d = sources (src g)"
proof (induction files arbitrary: m)
  case Nil
  then show ?case by simp
next
  case (Cons a files)
  show ?case
  proof (cases "\<exists>g\<in>set files. dest g = d \<and> sources (src g) \<noteq> None")
    case True
    from Cons.IH [OF True] show ?thesis
      by (metis copied.simps(2) list.set_intros(2))
  next
    case False
    then have u: "\<forall>g\<in>set files. dest g = d \<longrightarrow> sources (src g) = None"
      by blast
    from False Cons.prems have fa: "dest a = d" "sources (src a) \<noteq> None"
      by auto
    show ?thesis
      using fa copied_untouched [OF u] by (auto split: option.splits)
  qed
qed

lemma copied_distinct:
  "distinct (map dest files) \<Longrightarrow> f \<in> set files \<Longrightarrow> sources (src f) = Some n \<Longrightarrow>
   copied files sources m (dest f) = Some n"
proof (induction files arbitrary: m)
  case Nil
  then show ?case by simp
next
  case (Cons a files)
  show ?case
  proof (cases "f = a")
    case True
    have "dest a \<notin> dest ` set files"
      using Cons.prems(1) by simp
    then have "\<forall>g\<in>set files. dest g = dest f \<longrightarrow> sources (src g) = None"
      using True by (metis imageI)
    from copied_untouched [OF this] Cons.prems(3) True show ?thesis
      by simp
  next
    case False
    with Cons show ?thesis by auto
  qed
qed

lemma distinct_staticFiles: "distinct (map dest staticFiles)"
  by (simp add: staticFiles_def lit_def)

text \<open>
  C7. The loop of \<open>copyStaticFiles\<close>, for any list of sources and destinations. On a
  file system that can be written to, with the output directory in place, where every
  source that exists is a regular file and no destination is taken by a directory or a
  special file: the loop returns without an error, in particular when some sources do
  not exist; the destination of every source that exists holds a copy of a source of
  the list that exists and has this destination, which is that source itself when no
  two destinations are the same (as in \<open>staticFiles\<close>); and a destination none of whose
  sources exists is as it was before, so nothing is created for a missing source.
\<close>

theorem copy_files_skips_missing_sources:
  assumes "\<not> read_only fs"
    and "lookup (root fs) distDir = Some (Dir sub)"
    and "\<forall>f\<in>set files. \<forall>n. lookup (root fs) [src f] = Some n \<longrightarrow> (\<exists>c. n = File c)"
    and "\<forall>f\<in>set files. \<forall>n. lookup (root fs) (distDir @ [dest f]) = Some n \<longrightarrow> (\<exists>c. n = File c)"
  shows "\<exists>fs'. copy_files files fs = Inr fs' \<and>
     (files = staticFiles \<longrightarrow> copyStaticFiles fs = Inr fs') \<and>
     (\<forall>f\<in>set files. existsSync fs [src f] \<longrightarrow>
        (\<exists>g\<in>set files. dest g = dest f \<and> existsSync fs [src g] \<and>
           lookup (root fs') (distDir @ [dest f]) = lookup (root fs) [src g])) \<and>
     (distinct (map dest files) \<longrightarrow>
        (\<forall>f\<in>set files. existsSync fs [src f] \<longrightarrow>
           lookup (root fs') (distDir @ [dest f]) = lookup (root fs) [src f])) \<and>
     (\<forall>d. (\<forall>f\<in>set files. dest f = d \<longrightarrow> \<not> existsSync fs [src f]) \<longrightarrow>
        lookup (root fs') (distDir @ [d]) = lookup (root fs) (distDir @ [d])) \<and>
     (\<forall>x. x \<noteq> lit ''dist'' \<longrightarrow> lookup (root fs') [x] = lookup (root fs) [x])"
proof -
  have dist: "map_of (cwd fs) (lit ''dist'') = Some (Dir sub)"
    using assms(2) by (simp add: lookup_distDir)
  have srcs: "\<forall>f\<in>set files. \<forall>n. map_of (cwd fs) (src f) = Some n \<longrightarrow> (\<exists>c. n = File c)"
    using assms(3) by simp
  have dests: "\<forall>f\<in>set files. \<forall>n. map_of sub (dest f) = Some n \<longrightarrow> (\<exists>c. n = File c)"
    using assms(4) by (simp add: lookup_dist_entry dist)
  from copy_files_copied [OF assms(1) dist srcs dests]
  obtain fs' sub' where r: "copy_files files fs = Inr fs'"
      "map_of (cwd fs') (lit ''dist'') = Some (Dir sub')"
      "\<forall>x. x \<noteq> lit ''dist'' \<longrightarrow> map_of (cwd fs') x = map_of (cwd fs) x"
      "map_of sub' = copied files (map_of (cwd fs)) (map_of sub)"
    by blast
  have after: "lookup (root fs') (distDir @ [d]) = copied files (map_of (cwd fs)) (map_of sub) d" for d
    using r(2,4) by (simp add: lookup_dist_entry)
  have before: "lookup (root fs) (distDir @ [d]) = map_of sub d" for d
    using dist by (simp add: lookup_dist_entry)
  have ex: "existsSync fs [x] = (map_of (cwd fs) x \<noteq> None)" for x
    by (simp add: existsSync_def)
  have 1: "files = staticFiles \<longrightarrow> copyStaticFiles fs = Inr fs'"
    using r(1) by (auto simp add: copyStaticFiles_def)
  have 2: "\<forall>f\<in>set files. existsSync fs [src f] \<longrightarrow>
        (\<exists>g\<in>set files. dest g = dest f \<and> existsSync fs [src g] \<and>
           lookup (root fs') (distDir @ [dest f]) = lookup (root fs) [src g])"
  proof (intro ballI impI)
    fix f assume "f \<in> set files" "existsSync fs [src f]"
    then have "\<exists>g\<in>set files. dest g = dest f \<and> map_of (cwd fs) (src g) \<noteq> None"
      using ex by blast
    from copied_some [OF this, of "map_of sub"]
    show "\<exists>g\<in>set files. dest g = dest f \<and> existsSync fs [src g] \<and>
           lookup (root fs') (distDir @ [dest f]) = lookup (root fs) [src g]"
      by (simp add: after ex)
  qed
  have 3: "distinct (map dest files) \<longrightarrow>
        (\<forall>f\<in>set files. existsSync fs [src f] \<longrightarrow>
           lookup (root fs') (distDir @ [dest f]) = lookup (root fs) [src f])"
    using copied_distinct [of files _ "map_of (cwd fs)" _ "map_of sub"]
    by (auto simp add: after ex)
  have 4: "\<forall>d. (\<forall>f\<in>set files. dest f = d \<longrightarrow> \<not> existsSync fs [src f]) \<longrightarrow>
        lookup (root fs') (distDir @ [d]) = lookup (root fs) (distDir @ [d])"
    using copied_untouched [of files _ "map_of (cwd fs)" "map_of sub"]
    by (simp add: after before ex)
  have 5: "\<forall>x. x \<noteq> lit ''dist'' \<longrightarrow> lookup (root fs') [x] = lookup (root fs) [x]"
    using r(3) by simp
  from r(1) 1 2 3 4 5 show ?thesis by blast
qed

theorem copy_files_skips_missing_sources_witness:
  "\<not> read_only sample_fs \<and>
   lookup (root sample_fs) distDir = Some (Dir sample_dist) \<and>
   existsSync sample_fs [lit ''robots.txt''] \<and>
   \<not> existsSync sample_fs [lit ''sitemap.xml''] \<and>
   (\<exists>fs'. copyStaticFiles sample_fs = Inr fs' \<and>
      lookup (root fs') (distDir @ [lit ''robots.txt'']) = Some (File [9]) \<and>
      lookup (root fs') (distDir @ [lit ''index.html'']) = Some (File [7, 8]) \<and>
      lookup (root fs') (distDir @ [lit ''sitemap.xml'']) = None)"
proof -
  have w: "\<not> read_only sample_fs"
    by (simp add: sample_fs_def)
  have d: "lookup (root sample_fs) distDir = Some (Dir sample_dist)"
    by (simp add: sample_fs_def distDir_def lit_def)
  have look: "lookup (root sample_fs) [x] =
      (if x = lit ''index.html'' then Some (File [7, 8])
       else if x = lit ''robots.txt'' then Some (File [9])
       else if x = lit ''dist'' then Some (Dir sample_dist) else None)" for x
    by (simp add: sample_fs_def)
  have names: "lit ''robots.txt'' \<noteq> lit ''index.html''" "lit ''sitemap.xml'' \<noteq> lit ''index.html''"
    "lit ''sitemap.xml'' \<noteq> lit ''robots.txt''" "lit ''sitemap.xml'' \<noteq> lit ''dist''"
    by (simp_all add: lit_def)
  have s: "\<forall>f\<in>set staticFiles. \<forall>n. lookup (root sample_fs) [src f] = Some n \<longrightarrow> (\<exists>c. n = File c)"
    unfolding look by (simp add: staticFiles_def lit_def)
  have t: "\<forall>f\<in>set staticFiles. \<forall>n.
      lookup (root sample_fs) (distDir @ [dest f]) = Some n \<longrightarrow> (\<exists>c. n = File c)"
    by (simp add: lookup_dist_entry sample_fs_def sample_dist_def staticFiles_def lit_def)
  have e: "existsSync sample_fs [lit ''robots.txt'']" "\<not> existsSync sample_fs [lit ''sitemap.xml'']"
    "existsSync sample_fs [lit ''index.html'']"
    unfolding existsSync_def look by (simp_all add: names)
  have members: "\<lparr>src = lit ''robots.txt'', dest = lit ''robots.txt''\<rparr> \<in> set staticFiles"
    "\<lparr>src = lit ''index.html'', dest = lit ''index.html''\<rparr> \<in> set staticFiles"
    by (simp_all add: staticFiles_def)
  have missing: "\<forall>f\<in>set staticFiles. dest f = lit ''sitemap.xml'' \<longrightarrow> \<not> existsSync sample_fs [src f]"
    unfolding existsSync_def look by (simp add: staticFiles_def lit_def)
  have distinct: "distinct (map dest staticFiles)"
    by (rule distinct_staticFiles)
  have old: "lookup (root sample_fs) (distDir @ [lit ''sitemap.xml'']) = None"
    by (simp add: lookup_dist_entry sample_fs_def sample_dist_def lit_def)
  from copy_files_skips_missing_sources [OF w d s t]
  obtain fs' where r: "copyStaticFiles sample_fs = Inr fs'"
    "\<forall>f\<in>set staticFiles. existsSync sample_fs [src f] \<longrightarrow>
       lookup (root fs') (distDir @ [dest f]) = lookup (root sample_fs) [src f]"
    "\<forall>d. (\<forall>f\<in>set staticFiles. dest f = d \<longrightarrow> \<not> existsSync sample_fs [src f]) \<longrightarrow>
       lookup (root fs') (distDir @ [d]) = lookup (root sample_fs) (distDir @ [d])"
    using distinct by blast
  from r(2) members e have "lookup (root fs') (distDir @ [lit ''robots.txt'']) = Some (File [9])"
    "lookup (root fs') (distDir @ [lit ''index.html'']) = Some (File [7, 8])"
    unfolding look by (force simp add: names)+
  moreover from r(3) missing old have "lookup (root fs') (distDir @ [lit ''sitemap.xml'']) = None"
    by simp
  ultimately show ?thesis
    using w d e r(1) by blast
qed

lemma files_under_nonempty: "(p, c) \<in> set (files_under es) \<Longrightarrow> p \<noteq> [] \<and> hd p \<in> fst ` set es"
  by (induction es arbitrary: p c rule: files_under.induct) (auto simp: image_iff)

lemma expected_hashes_Nil [simp]: "expected_hashes md5 rel [] = []"
  by (simp add: expected_hashes_def)

lemma expected_hashes_File [simp]:
  "expected_hashes md5 rel ((name, File content) # es) =
     (if css_or_js name then [(relative (rel @ [name]), hash8 md5 content)] else []) @
     expected_hashes md5 rel es"
  by (simp add: expected_hashes_def)

lemma expected_hashes_Special [simp]:
  "expected_hashes md5 rel ((name, Special) # es) = expected_hashes md5 rel es"
  by (simp add: expected_hashes_def)

lemma expected_hashes_Dir [simp]:
  "expected_hashes md5 rel ((name, Dir sub) # es) =
     expected_hashes md5 (rel @ [name]) sub @ expected_hashes md5 rel es"
proof -
  have "filter (\<lambda>(p, content). css_or_js (last p))
          (map (\<lambda>(p, content). (name # p, content)) (files_under sub)) =
        map (\<lambda>(p, content). (name # p, content))
          (filter (\<lambda>(p, content). css_or_js (last p)) (files_under sub))"
    unfolding filter_map
    by (rule arg_cong [where f = "map _"], rule filter_cong)
      (auto dest: files_under_nonempty)
  then show ?thesis
    by (simp add: expected_hashes_def case_prod_unfold comp_def)
qed

lemma hashFiles_fold:
  "hashFiles md5 rel es hm =
     fold (\<lambda>(k, v). AList.update k v) (expected_hashes md5 rel es) hm"
  by (induction md5 rel es hm rule: hashFiles.induct) simp_all

lemma update_fresh: "k \<notin> fst ` set al \<Longrightarrow> AList.update k v al = al @ [(k, v)]"
  by (induction al) auto

lemma fold_update_fresh:
  "distinct (map fst kvs) \<Longrightarrow> fst ` set kvs \<inter> fst ` set hm = {} \<Longrightarrow>
   fold (\<lambda>(k, v). AList.update k v) kvs hm = hm @ kvs"
proof (induction kvs arbitrary: hm)
  case Nil
  show ?case by simp
next
  case (Cons kv kvs)
  obtain k v where kv: "kv = (k, v)" by (cases kv)
  have fresh: "k \<notin> fst ` set hm"
    using Cons.prems(2) kv by auto
  have "fold (\<lambda>(k, v). AList.update k v) kvs (hm @ [(k, v)]) = (hm @ [(k, v)]) @ kvs"
    using Cons.prems kv by (intro Cons.IH) auto
  then show ?case
    by (simp add: kv update_fresh [OF fresh])
qed

lemma slash_split_unique:
  "SLASH \<notin> set x \<Longrightarrow> SLASH \<notin> set y \<Longrightarrow> x @ SLASH # r = y @ SLASH # s \<Longrightarrow> x = y \<and> r = s"
proof (induction x arbitrary: y)
  case Nil
  then show ?case by (cases y) auto
next
  case (Cons a x)
  then show ?case by (cases y) auto
qed

lemma slash_in_relative:
  "SLASH \<in> set (relative (x # y # p))"
  by simp

lemma relative_inj:
  "\<forall>x\<in>set p. SLASH \<notin> set x \<Longrightarrow> \<forall>x\<in>set q. SLASH \<notin> set x \<Longrightarrow> p \<noteq> [] \<Longrightarrow> q \<noteq> [] \<Longrightarrow>
   relative p = relative q \<Longrightarrow> p = q"
proof (induction p arbitrary: q rule: relative.induct)
  case 1
  then show ?case by simp
next
  case (2 x)
  then show ?case
  proof (cases q rule: relative.cases)
    case (3 y z q')
    with 2 have "SLASH \<in> set x" by (metis slash_in_relative relative.simps(2))
    with 2 show ?thesis by simp
  qed simp_all
next
  case (3 x y p)
  show ?case
  proof (cases q rule: relative.cases)
    case 1
    with 3 show ?thesis by simp
  next
    case (2 z)
    with 3 have "SLASH \<in> set z" by (metis slash_in_relative relative.simps(2))
    with 3 2 show ?thesis by simp
  next
    case q: (3 x' y' q')
    from 3(6) q have "x @ SLASH # relative (y # p) = x' @ SLASH # relative (y' # q')"
      by simp
    with 3(2,3) q have "x = x' \<and> relative (y # p) = relative (y' # q')"
      by (intro slash_split_unique) auto
    moreover from this 3 q have "y # p = y' # q'"
      by (intro 3(1)) auto
    ultimately show ?thesis using q by simp
  qed
qed

lemma files_under_slash_free:
  "well_formed es \<Longrightarrow> (p, c) \<in> set (files_under es) \<Longrightarrow> \<forall>x\<in>set p. SLASH \<notin> set x"
  by (induction es arbitrary: p c rule: files_under.induct) auto

lemma files_under_distinct: "well_formed es \<Longrightarrow> distinct (map fst (files_under es))"
proof (induction es rule: files_under.induct)
  case 1
  show ?case by simp
next
  case (2 name content es)
  have "[name] \<notin> set (map fst (files_under es))"
  proof
    assume "[name] \<in> set (map fst (files_under es))"
    then obtain c where "([name], c) \<in> set (files_under es)"
      by auto
    from files_under_nonempty [OF this] have "name \<in> fst ` set es"
      by simp
    with 2(2) show False by simp
  qed
  with 2 show ?case
    by simp
next
  case (3 name sub es)
  have a: "distinct (map fst (files_under sub))" and b: "distinct (map fst (files_under es))"
    using 3 by simp_all
  have e: "map fst (map (\<lambda>(p, content). (name # p, content)) (files_under sub)) =
      map ((#) name) (map fst (files_under sub))"
    by (simp add: case_prod_unfold comp_def)
  have d: "distinct (map ((#) name) (map fst (files_under sub)))"
    using a by (subst distinct_map) (simp only: inj_on_def, blast)
  have dj: "set (map ((#) name) (map fst (files_under sub))) \<inter> set (map fst (files_under es)) = {}"
  proof -
    have "hd p \<noteq> name" if "p \<in> set (map fst (files_under es))" for p
    proof -
      from that obtain c where "(p, c) \<in> set (files_under es)"
        by auto
      from files_under_nonempty [OF this] have "hd p \<in> fst ` set es"
        by simp
      moreover have "name \<notin> fst ` set es"
        using 3(3) by simp
      ultimately show ?thesis by metis
    qed
    then show ?thesis by fastforce
  qed
  have "map fst (files_under ((name, Dir sub) # es)) =
      map ((#) name) (map fst (files_under sub)) @ map fst (files_under es)"
    by (simp only: files_under.simps map_append e)
  moreover have "distinct (map ((#) name) (map fst (files_under sub)) @ map fst (files_under es))"
    using d dj b by (simp only: distinct_append simp_thms)
  ultimately show ?case
    by (simp only:)
next
  case (4 name es)
  then show ?case by simp
qed

lemma expected_hashes_distinct:
  assumes "well_formed es"
  shows "distinct (map fst (expected_hashes md5 [] es))"
proof -
  let ?sel = "filter (\<lambda>(p, content). css_or_js (last p)) (files_under es)"
  have d: "distinct (map fst ?sel)"
    using files_under_distinct [OF assms] by (rule distinct_map_filter)
  have inj: "inj_on relative (set (map fst ?sel))"
  proof (rule inj_onI)
    fix p q
    assume "p \<in> set (map fst ?sel)" "q \<in> set (map fst ?sel)" "relative p = relative q"
    moreover from this obtain c c' where "(p, c) \<in> set (files_under es)" "(q, c') \<in> set (files_under es)"
      by auto
    ultimately show "p = q"
      using files_under_slash_free [OF assms] files_under_nonempty
      by (intro relative_inj) blast+
  qed
  have eq: "map fst (expected_hashes md5 [] es) = map relative (map fst ?sel)"
    by (simp add: expected_hashes_def case_prod_unfold comp_def)
  from d inj have "distinct (map relative (map fst ?sel))"
    by (subst distinct_map) blast
  then show ?thesis
    by (simp only: eq)
qed

lemma hashFiles_expected:
  "well_formed es \<Longrightarrow> hashFiles md5 [] es [] = expected_hashes md5 [] es"
  using fold_update_fresh [OF expected_hashes_distinct, of es md5 "[]"]
  by (simp add: hashFiles_fold)

lemma writeFileSync_into_dist:
  assumes "\<not> read_only fs" and "map_of (cwd fs) (lit ''dist'') = Some (Dir sub)"
    and "\<forall>n. map_of sub d = Some n \<longrightarrow> (\<exists>c'. n = File c')"
  shows "writeFileSync fs (distDir @ [d]) c =
           Inr (fs\<lparr>cwd := AList.update (lit ''dist'') (Dir (AList.update d (File c) sub)) (cwd fs)\<rparr>)"
  using assms
  by (auto simp add: writeFileSync_def lookup_dist_entry
      root_def distDir_def split: option.splits node.splits)

text \<open>
  C1. \<open>generateHashes\<close> on a file system that can be written to, with the output
  directory in place and \<open>hashes.json\<close> not taken by a directory. Outside of production
  mode it returns the file system as it is: nothing is written. In production mode it
  returns without an error and \<open>dist/hashes.json\<close> holds the serialised \<open>hashMap\<close>, the
  other entries of the output directory being as before. The \<open>hashMap\<close> has exactly one
  entry for each regular file below the output directory whose name ends in \<open>.css\<close> or
  \<open>.js\<close>: no key twice, as many entries as such files, the key being the path relative
  to the output root and the value the short digest of the bytes.
\<close>

theorem generateHashes_production_only:
  assumes "\<not> read_only fs"
    and "lookup (root fs) distDir = Some (Dir es)"
    and "well_formed es"
    and "\<forall>n. lookup (root fs) (distDir @ [lit ''hashes.json'']) = Some n \<longrightarrow> (\<exists>c. n = File c)"
  shows "(\<not> isProduction bm \<longrightarrow> generateHashes md5 stringify bm fs = Inr fs) \<and>
     (isProduction bm \<longrightarrow>
        (\<exists>fs'. generateHashes md5 stringify bm fs = Inr fs' \<and>
           lookup (root fs') (distDir @ [lit ''hashes.json'']) =
             Some (File (stringify (expected_hashes md5 [] es))) \<and>
           (\<forall>x. x \<noteq> lit ''hashes.json'' \<longrightarrow>
              lookup (root fs') (distDir @ [x]) = lookup (root fs) (distDir @ [x])))) \<and>
     distinct (map fst (expected_hashes md5 [] es)) \<and>
     length (expected_hashes md5 [] es) =
       length (filter (\<lambda>(p, content). css_or_js (last p)) (files_under es)) \<and>
     (\<forall>k h. (k, h) \<in> set (expected_hashes md5 [] es) \<longleftrightarrow>
        (\<exists>p content. (p, content) \<in> set (files_under es) \<and> css_or_js (last p) \<and>
           k = relative p \<and> h = hash8 md5 content))"
proof -
  have dist: "map_of (cwd fs) (lit ''dist'') = Some (Dir es)"
    using assms(2) by (simp add: lookup_distDir)
  have old: "\<forall>n. map_of es (lit ''hashes.json'') = Some n \<longrightarrow> (\<exists>c. n = File c)"
    using assms(4) by (simp add: lookup_dist_entry dist)
  let ?hm = "expected_hashes md5 [] es"
  let ?fs' = "fs\<lparr>cwd := AList.update (lit ''dist'')
    (Dir (AList.update (lit ''hashes.json'') (File (stringify ?hm)) es)) (cwd fs)\<rparr>"
  have 1: "\<not> isProduction bm \<longrightarrow> generateHashes md5 stringify bm fs = Inr fs"
    by (simp add: generateHashes_def)
  have w: "writeFileSync fs (distDir @ [lit ''hashes.json'']) (stringify ?hm) = Inr ?fs'"
    using assms(1) dist old by (rule writeFileSync_into_dist)
  have g: "isProduction bm \<Longrightarrow> generateHashes md5 stringify bm fs = Inr ?fs'"
    using w assms(2) by (simp add: generateHashes_def hashFiles_expected [OF assms(3)])
  have a: "lookup (root ?fs') (distDir @ [lit ''hashes.json'']) = Some (File (stringify ?hm))"
    by (simp add: lookup_dist_entry update_conv')
  have b: "\<forall>x. x \<noteq> lit ''hashes.json'' \<longrightarrow>
      lookup (root ?fs') (distDir @ [x]) = lookup (root fs) (distDir @ [x])"
    by (simp add: lookup_dist_entry update_conv' dist)
  have 2: "isProduction bm \<longrightarrow>
        (\<exists>fs'. generateHashes md5 stringify bm fs = Inr fs' \<and>
           lookup (root fs') (distDir @ [lit ''hashes.json'']) = Some (File (stringify ?hm)) \<and>
           (\<forall>x. x \<noteq> lit ''hashes.json'' \<longrightarrow>
              lookup (root fs') (distDir @ [x]) = lookup (root fs) (distDir @ [x])))"
    using g a b by blast
  have 3: "distinct (map fst ?hm)"
    using assms(3) by (rule expected_hashes_distinct)
  have 4: "length ?hm = length (filter (\<lambda>(p, content). css_or_js (last p)) (files_under es))"
    by (simp add: expected_hashes_def)
  have 5: "\<forall>k h. (k, h) \<in> set ?hm \<longleftrightarrow>
        (\<exists>p content. (p, content) \<in> set (files_under es) \<and> css_or_js (last p) \<and>
           k = relative p \<and> h = hash8 md5 content)"
    by (auto simp add: expected_hashes_def)
  from 1 2 3 4 5 show ?thesis by blast
qed

theorem generateHashes_production_only_witness:
  "\<not> read_only sample_fs \<and>
   lookup (root sample_fs) distDir = Some (Dir sample_dist) \<and>
   well_formed sample_dist \<and>
   expected_hashes (\<lambda>b. 0xd41d8cd98f00b204e9800998ecf8427e) [] sample_dist =
     [(lit ''css/style.css'', lit ''d41d8cd9''), (lit ''js/main.js'', lit ''d41d8cd9'')] \<and>
   (\<exists>fs'. generateHashes (\<lambda>b. 0xd41d8cd98f00b204e9800998ecf8427e)
            (map (\<lambda>(k, v). of_nat (length k)))
            \<lparr>isProduction = True, verbose = False, clean = True\<rparr> sample_fs = Inr fs' \<and>
      lookup (root fs') (distDir @ [lit ''hashes.json'']) = Some (File [13, 10])) \<and>
   generateHashes (\<lambda>b. 0xd41d8cd98f00b204e9800998ecf8427e)
     (map (\<lambda>(k, v). of_nat (length k)))
     \<lparr>isProduction = False, verbose = False, clean = True\<rparr> sample_fs = Inr sample_fs"
proof -
  let ?md5 = "\<lambda>b :: bytes. 0xd41d8cd98f00b204e9800998ecf8427e :: 128 word"
  let ?str = "map (\<lambda>(k :: jsstring, v :: jsstring). of_nat (length k) :: 8 word)"
  have w: "\<not> read_only sample_fs"
    by (simp add: sample_fs_def)
  have d: "lookup (root sample_fs) distDir = Some (Dir sample_dist)"
    by (simp add: sample_fs_def distDir_def lit_def)
  have wf: "well_formed sample_dist"
    by code_simp
  have old: "\<forall>n. lookup (root sample_fs) (distDir @ [lit ''hashes.json'']) = Some n \<longrightarrow>
      (\<exists>c. n = File c)"
    by (simp add: lookup_dist_entry sample_fs_def sample_dist_def lit_def)
  have e: "expected_hashes ?md5 [] sample_dist =
      [(lit ''css/style.css'', lit ''d41d8cd9''), (lit ''js/main.js'', lit ''d41d8cd9'')]"
    by code_simp
  have s: "?str [(lit ''css/style.css'', lit ''d41d8cd9''), (lit ''js/main.js'', lit ''d41d8cd9'')]
      = [13, 10]"
    by (simp add: lit_def)
  have ip: "isProduction \<lparr>isProduction = True, verbose = False, clean = True\<rparr>"
    "\<not> isProduction \<lparr>isProduction = False, verbose = False, clean = True\<rparr>"
    by simp_all
  from ip(1) generateHashes_production_only [OF w d wf old,
      of "\<lparr>isProduction = True, verbose = False, clean = True\<rparr>" ?md5 ?str]
  have p: "\<exists>fs'. generateHashes ?md5 ?str
      \<lparr>isProduction = True, verbose = False, clean = True\<rparr> sample_fs = Inr fs' \<and>
      lookup (root fs') (distDir @ [lit ''hashes.json'']) = Some (File [13, 10])"
    unfolding e s by blast
  from ip(2) generateHashes_production_only [OF w d wf old,
      of "\<lparr>isProduction = False, verbose = False, clean = True\<rparr>" ?md5 ?str]
  have n: "generateHashes ?md5 ?str
      \<lparr>isProduction = False, verbose = False, clean = True\<rparr> sample_fs = Inr sample_fs"
    by blast
  from w d wf e p n show ?thesis
    by blast
qed

end
